theory Spec2Isabelle
  imports Main "HOL-Library.Word" "HOL-Library.AList"
begin

section \<open>The per-stream Delta xDS processor (pkg/server/delta/v2/server.go)\<close>

text \<open>
  The development follows \<^verbatim>\<open>processDelta\<close> and the closures it defines
  (\<^verbatim>\<open>send\<close>, \<^verbatim>\<open>update\<close>, \<^verbatim>\<open>process\<close>, \<^verbatim>\<open>processAll\<close>) and
  the methods of \<^verbatim>\<open>watches\<close>. The state the closures capture is passed explicitly,
  every call that leaves the processor (callbacks, transport, cache, logger, cancel
  handles) is recorded in an effect trace, and the non-deterministic \<^verbatim>\<open>select\<close> of
  the main loop is resolved by a schedule given as input.
\<close>

subsection \<open>Wire types and collaborators\<close>

type_synonym int64 = "64 word"

datatype code = Unavailable | InvalidArgument

text \<open>
  Go \<^verbatim>\<open>error\<close> values: \<^verbatim>\<open>errors.New\<close>, \<^verbatim>\<open>status.Errorf\<close>, and a run-time panic
  (which unwinds through the deferred teardown like a return).
\<close>

datatype error = Err string | StatusErr code string | Panic string

record Node =
  NodeId :: string
  NodeCluster :: string

record Status =
  StatusCode :: int
  StatusMessage :: string

record DeltaDiscoveryRequest =
  Node :: "Node option"
  TypeUrl :: string
  ResourceNamesSubscribe :: "string list"
  ResourceNamesUnsubscribe :: "string list"
  InitialResourceVersions :: "(string \<times> string) list"
  ResponseNonce :: string
  ErrorDetail :: "Status option"

record DeltaDiscoveryResponse =
  SystemVersionInfo :: string
  Resources :: "string list"
  RespTypeUrl :: string
  RemovedResources :: "string list"
  RespNonce :: string

text \<open>
  \<^verbatim>\<open>stream.StreamState\<close>. The resource-version map is an association list from
  resource name to version; it is held by value.
\<close>

record StreamState =
  Nonce :: string
  SystemVersion :: string
  ResourceVersions :: "(string \<times> string) list"

text \<open>
  \<^verbatim>\<open>cache.DeltaResponse\<close> is an interface; a value of it is the record of what its
  four methods return. The channel carries interface values, so an element may be nil
  (\<open>None\<close>); so may the pointers two of the methods return.
\<close>

record DeltaResponse =
  GetDeltaRequest :: "DeltaDiscoveryRequest option"
  GetDeltaDiscoveryResponse :: "error + DeltaDiscoveryResponse option"
  GetSystemVersion :: "error + string"
  GetDeltaVersionMap :: "error + (string \<times> string) list"

text \<open>
  The two callbacks that return an error decide on their arguments; the two that return
  nothing appear in the trace only.
\<close>

record Callbacks =
  OnDeltaStreamOpen :: "int64 \<Rightarrow> string \<Rightarrow> error option"
  OnStreamDeltaRequest :: "int64 \<Rightarrow> DeltaDiscoveryRequest \<Rightarrow> error option"

text \<open>
  The cache. \<^verbatim>\<open>CreateDeltaWatch\<close> returns a cancel function, which may be nil: the
  model's function says whether the \<open>k\<close>-th watch of the stream gets a non-nil one, and
  the handle is then named \<open>k\<close>. \<open>ResponseTypeURLs\<close> lists
  \<^verbatim>\<open>cache.GetResponseTypeURL(types.ResponseType(i))\<close> for \<open>i\<close> below
  \<^verbatim>\<open>types.UnknownType\<close>; both are declared outside this package and are taken as
  given.
\<close>

record ConfigWatcher =
  CreateDeltaWatch :: "nat \<Rightarrow> DeltaDiscoveryRequest \<Rightarrow> StreamState \<Rightarrow> bool"
  ResponseTypeURLs :: "string list"

record DeltaStream =
  Send :: "DeltaDiscoveryResponse \<Rightarrow> error option"

record server =
  cache :: ConfigWatcher
  callbacks :: "Callbacks option"
  streamCount :: int64
  xdsBufferSize :: int
  muxBufferSize :: int
  logger :: bool

text \<open>
  \<^verbatim>\<open>resource.AnyType\<close>, the default type URL of an aggregated stream. The constant is
  declared in package \<^verbatim>\<open>resource\<close>; the \<^verbatim>\<open>Callbacks\<close> interface documents it as
  the empty string ("or "" for ADS").
\<close>

definition AnyType :: string where
  "AnyType = ''''"

subsection \<open>Effects\<close>

datatype effect =
    StreamOpenCb int64 string
  | StreamClosedCb int64
  | RequestCb int64 DeltaDiscoveryRequest
  | ResponseCb int64 "DeltaDiscoveryRequest option" DeltaDiscoveryResponse
  | SendCall DeltaDiscoveryResponse
  | CancelCall string nat
  | WatchCall DeltaDiscoveryRequest "DeltaResponse option list" StreamState
  | LogErrorf Status
  | LogDebugf string

text \<open>
  \<open>WatchCall req pending st\<close> is a call of \<^verbatim>\<open>CreateDeltaWatch\<close> with the request,
  the response channel (given by what is waiting in it at the call) and the stream state of
  the type. \<open>CancelCall t k\<close> is a call of the cancel handle \<open>k\<close> registered for type
  \<open>t\<close>.
\<close>

subsection \<open>The watches of a stream\<close>

text \<open>
  \<^verbatim>\<open>watches\<close> with the variables the closures of \<^verbatim>\<open>processDelta\<close> share:
  \<^verbatim>\<open>streamNonce\<close>, \<^verbatim>\<open>node\<close>, and the count of watches created so far (which
  names cancel handles). The three Go maps are association lists read with \<open>map_of\<close> and
  written with \<open>AList.update\<close>; an entry of \<open>deltaCancellations\<close> holding a nil
  function is \<open>Some None\<close>. The channel is the queue of the responses a receive can
  take, oldest first: what is buffered followed by what blocked senders hold, so its
  capacity does not show on the receiving side. The processor is the only goroutine
  that reads or writes the maps, so the mutex is left out.
\<close>

record watches =
  deltaStreamStates :: "(string \<times> StreamState) list"
  deltaResponses :: "DeltaResponse option list"
  deltaCancellations :: "(string \<times> nat option) list"
  deltaNonces :: "(string \<times> string) list"
  streamNonce :: int64
  node :: Node
  watchCount :: nat

definition emptyStreamState :: StreamState where
  "emptyStreamState = \<lparr>Nonce = '''', SystemVersion = '''', ResourceVersions = []\<rparr>"

definition initStreamState :: "string list \<Rightarrow> (string \<times> StreamState) list" where
  "initStreamState urls = foldl (\<lambda>m u. AList.update u emptyStreamState m) [] urls"

definition Init :: "string list \<Rightarrow> watches" where
  "Init urls =
     \<lparr>deltaStreamStates = initStreamState urls,
      deltaResponses = [],
      deltaCancellations = [],
      deltaNonces = [],
      streamNonce = 0,
      node = \<lparr>NodeId = '''', NodeCluster = ''''\<rparr>,
      watchCount = 0\<rparr>"

text \<open>\<^verbatim>\<open>Cancel\<close>: every non-nil handle of the map is called (in the order of the list).\<close>

fun cancelAll :: "(string \<times> nat option) list \<Rightarrow> effect list" where
  "cancelAll [] = []"
| "cancelAll ((t, None) # cs) = cancelAll cs"
| "cancelAll ((t, Some k) # cs) = CancelCall t k # cancelAll cs"

definition Cancel :: "watches \<Rightarrow> effect list" where
  "Cancel values = cancelAll (deltaCancellations values)"

subsection \<open>strconv.FormatInt in base 10\<close>

definition digit :: "nat \<Rightarrow> char" where
  "digit d = char_of (48 + d)"

fun decimal :: "nat \<Rightarrow> string" where
  "decimal n = (if n < 10 then [digit n] else decimal (n div 10) @ [digit (n mod 10)])"

declare decimal.simps [simp del]

definition FormatInt :: "int \<Rightarrow> string" where
  "FormatInt i = (if i < 0 then CHR ''-'' # decimal (nat (- i)) else decimal (nat i))"

text \<open>Reading a decimal string back as an integer, to compare nonces as integers.\<close>

definition digits_value :: "string \<Rightarrow> nat" where
  "digits_value cs = foldl (\<lambda>a c. 10 * a + (of_char c - 48)) 0 cs"

definition nonce_value :: "string \<Rightarrow> int" where
  "nonce_value cs =
     (case cs of [] \<Rightarrow> 0
      | c # rest \<Rightarrow> if c = CHR ''-'' then - int (digits_value rest) else int (digits_value cs))"

subsection \<open>send, update, process, processAll\<close>

text \<open>
  \<^verbatim>\<open>send\<close>: the nonce and the error of the Go pair as a sum. A nil
  \<^verbatim>\<open>out\<close> with a nil error makes the store into \<^verbatim>\<open>out.Nonce\<close> panic, after the
  counter was incremented.
\<close>

definition send ::
  "server \<Rightarrow> DeltaStream \<Rightarrow> int64 \<Rightarrow> watches \<Rightarrow> DeltaResponse option
     \<Rightarrow> (error + string) \<times> watches \<times> effect list" where
  "send s str streamID values resp =
     (case resp of
        None \<Rightarrow> (Inl (Err ''missing response''), values, [])
      | Some r \<Rightarrow>
         (case GetDeltaDiscoveryResponse r of
            Inl err \<Rightarrow> (Inl err, values, [])
          | Inr None \<Rightarrow>
              (Inl (Panic ''nil pointer dereference''),
               values\<lparr>streamNonce := streamNonce values + 1\<rparr>, [])
          | Inr (Some out0) \<Rightarrow>
              (let n = streamNonce values + 1;
                   out = out0\<lparr>RespNonce := FormatInt (sint n)\<rparr>;
                   cb = (if callbacks s \<noteq> None
                         then [ResponseCb streamID (GetDeltaRequest r) out] else [])
               in ((case Send str out of Some err \<Rightarrow> Inl err | None \<Rightarrow> Inr (RespNonce out)),
                   values\<lparr>streamNonce := n\<rparr>,
                   cb @ [SendCall out]))))"

text \<open>\<^verbatim>\<open>update\<close> returns the pair of Go: the zero \<^verbatim>\<open>StreamState\<close> with an error.\<close>

definition zeroStreamState :: StreamState where
  "zeroStreamState = \<lparr>Nonce = '''', SystemVersion = '''', ResourceVersions = []\<rparr>"

definition update :: "DeltaResponse \<Rightarrow> string \<Rightarrow> StreamState \<times> error option" where
  "update resp nonce =
     (case GetSystemVersion resp of
        Inl err \<Rightarrow> (zeroStreamState, Some err)
      | Inr sv \<Rightarrow>
         (case GetDeltaVersionMap resp of
            Inl err \<Rightarrow> (zeroStreamState, Some err)
          | Inr vm \<Rightarrow>
              (\<lparr>Nonce = nonce, SystemVersion = sv, ResourceVersions = vm\<rparr>, None)))"

text \<open>
  \<^verbatim>\<open>process\<close>. The tuple assignment
  \<^verbatim>\<open>values.deltaStreamStates[typeURL], err = update(resp, nonce)\<close> stores the first
  component before \<^verbatim>\<open>err\<close> is tested.
\<close>

definition process ::
  "server \<Rightarrow> DeltaStream \<Rightarrow> int64 \<Rightarrow> watches \<Rightarrow> DeltaResponse option
     \<Rightarrow> error option \<times> watches \<times> effect list" where
  "process s str streamID values resp =
     (case send s str streamID values resp of
        (Inl err, values1, tr) \<Rightarrow> (Some err, values1, tr)
      | (Inr nonce, values1, tr) \<Rightarrow>
         (case resp of
            None \<Rightarrow> (Some (Panic ''nil pointer dereference''), values1, tr)
          | Some r \<Rightarrow>
             (case GetDeltaRequest r of
                None \<Rightarrow> (Some (Panic ''nil pointer dereference''), values1, tr)
              | Some rq \<Rightarrow>
                 (let typeURL = TypeUrl rq;
                      values2 = values1
                        \<lparr>deltaNonces := AList.update typeURL nonce (deltaNonces values1),
                         deltaCancellations :=
                           AList.update typeURL None (deltaCancellations values1)\<rparr>;
                      (st, err) = update r nonce;
                      values3 = values2
                        \<lparr>deltaStreamStates :=
                           AList.update typeURL st (deltaStreamStates values2)\<rparr>
                  in (err, values3, tr)))))"

text \<open>
  \<^verbatim>\<open>processAll\<close>: receive without blocking until the channel is empty, stop at the
  first error. \<open>drain\<close> is the loop, on the queue that is left.
\<close>

fun drain ::
  "server \<Rightarrow> DeltaStream \<Rightarrow> int64 \<Rightarrow> DeltaResponse option list \<Rightarrow> watches
     \<Rightarrow> error option \<times> watches \<times> effect list" where
  "drain s str streamID [] values = (None, values, [])"
| "drain s str streamID (resp # rest) values =
     (case process s str streamID (values\<lparr>deltaResponses := rest\<rparr>) resp of
        (Some err, values1, tr) \<Rightarrow> (Some err, values1, tr)
      | (None, values1, tr) \<Rightarrow>
         (case drain s str streamID rest values1 of
            (err, values2, tr2) \<Rightarrow> (err, values2, tr @ tr2)))"

definition processAll ::
  "server \<Rightarrow> DeltaStream \<Rightarrow> int64 \<Rightarrow> watches \<Rightarrow> error option \<times> watches \<times> effect list" where
  "processAll s str streamID values = drain s str streamID (deltaResponses values) values"

subsection \<open>Handling a request\<close>

text \<open>
  \<^verbatim>\<open>unsubscribe\<close>: each name is logged (when there is a logger) and deleted from
  the map.
\<close>

definition unsubscribe ::
  "server \<Rightarrow> string list \<Rightarrow> (string \<times> string) list
     \<Rightarrow> (string \<times> string) list \<times> effect list" where
  "unsubscribe s resources sv =
     (foldl (\<lambda>m r. AList.delete r m) sv resources,
      if logger s
      then map (\<lambda>r. LogDebugf (''unsubscribing from resource: '' @ r)) resources
      else [])"

text \<open>
  Lines 304 to 309. \<^verbatim>\<open>GetVersionMap\<close> (package \<^verbatim>\<open>stream\<close>) yields the
  resource-version map of the entry, which \<^verbatim>\<open>unsubscribe\<close> changes in place; a
  type without an entry yields the zero state, whose nil map no deletion changes.
\<close>

definition unsubscribeStep ::
  "server \<Rightarrow> watches \<Rightarrow> DeltaDiscoveryRequest \<Rightarrow> watches \<times> effect list" where
  "unsubscribeStep s values req =
     (let u = ResourceNamesUnsubscribe req in
      if length u > 0 then
        (case map_of (deltaStreamStates values) (TypeUrl req) of
           None \<Rightarrow> (values, snd (unsubscribe s u []))
         | Some st \<Rightarrow>
            (case unsubscribe s u (ResourceVersions st) of
               (vm, tr) \<Rightarrow>
                 (values\<lparr>deltaStreamStates :=
                    AList.update (TypeUrl req) (st\<lparr>ResourceVersions := vm\<rparr>)
                      (deltaStreamStates values)\<rparr>, tr)))
      else (values, []))"

text \<open>
  What one turn of the main loop, and a run of it, comes to: the loop goes on (or, for a
  run, the processor waits in \<^verbatim>\<open>select\<close> when the schedule ends), or
  \<^verbatim>\<open>processDelta\<close> returns.
\<close>

datatype outcome = Running | Returned "error option"

text \<open>
  Lines 332 to 336. \<^verbatim>\<open>deltaStreamStates\<close> is the map \<^verbatim>\<open>Init\<close> made, never nil,
  so the test of line 333 holds. A type without an entry reads as the zero state.
\<close>

definition createWatch ::
  "server \<Rightarrow> watches \<Rightarrow> DeltaDiscoveryRequest \<Rightarrow> watches \<times> effect list" where
  "createWatch s values req =
     (let typeURL = TypeUrl req;
          st = (case map_of (deltaStreamStates values) typeURL of
                  None \<Rightarrow> zeroStreamState | Some st \<Rightarrow> st);
          k = watchCount values;
          cancel = (if CreateDeltaWatch (cache s) k req st then Some k else None)
      in (values\<lparr>deltaCancellations := AList.update typeURL cancel (deltaCancellations values),
                 watchCount := Suc k\<rparr>,
          [WatchCall req (deltaResponses values) st]))"

text \<open>Lines 317 to 337: \<open>nonce\<close> is the response nonce of the request.\<close>

definition reconcile ::
  "server \<Rightarrow> DeltaStream \<Rightarrow> int64 \<Rightarrow> watches \<Rightarrow> DeltaDiscoveryRequest \<Rightarrow> string
     \<Rightarrow> outcome \<times> watches \<times> effect list" where
  "reconcile s str streamID values req nonce =
     (let typeURL = TypeUrl req;
          seen = map_of (deltaNonces values) typeURL
      in if seen = None \<or> seen = Some nonce then
           (case map_of (deltaCancellations values) typeURL of
              Some (Some k) \<Rightarrow>
                (case processAll s str streamID values of
                   (Some err, values1, tr) \<Rightarrow>
                     (Returned (Some err), values1, CancelCall typeURL k # tr)
                 | (None, values1, tr) \<Rightarrow>
                     (case createWatch s values1 req of
                        (values2, tr2) \<Rightarrow> (Running, values2, CancelCall typeURL k # tr @ tr2)))
            | _ \<Rightarrow>
                (case createWatch s values req of
                   (values2, tr2) \<Rightarrow> (Running, values2, tr2)))
         else (Running, values, []))"

text \<open>Lines 285 to 291: the node the stream remembers, and the request with its node.\<close>

definition rehydrate ::
  "watches \<Rightarrow> DeltaDiscoveryRequest \<Rightarrow> watches \<times> DeltaDiscoveryRequest" where
  "rehydrate values req =
     (case Node req of
        Some n \<Rightarrow> (values\<lparr>node := n\<rparr>, req)
      | None \<Rightarrow> (values, req\<lparr>Node := Some (node values)\<rparr>))"

text \<open>Lines 278 to 283: the error detail of a request is logged, nothing else.\<close>

definition logErrorDetail :: "server \<Rightarrow> DeltaDiscoveryRequest \<Rightarrow> effect list" where
  "logErrorDetail s req =
     (case ErrorDetail req of
        Some d \<Rightarrow> if logger s then [LogErrorf d] else []
      | None \<Rightarrow> [])"

text \<open>The request case of the \<^verbatim>\<open>select\<close>, lines 274 to 337, for an open channel.\<close>

definition handleRequest ::
  "server \<Rightarrow> DeltaStream \<Rightarrow> string \<Rightarrow> int64 \<Rightarrow> watches \<Rightarrow> DeltaDiscoveryRequest option
     \<Rightarrow> outcome \<times> watches \<times> effect list" where
  "handleRequest s str defaultTypeURL streamID values r =
     (case r of
        None \<Rightarrow> (Returned (Some (StatusErr Unavailable ''empty request'')), values, [])
      | Some req0 \<Rightarrow>
         (let tr0 = logErrorDetail s req0;
              (values1, req1) = rehydrate values req0;
              nonce = ResponseNonce req1
          in if defaultTypeURL = AnyType \<and> TypeUrl req1 = '''' then
               (Returned (Some (StatusErr InvalidArgument ''type URL is required for ADS'')),
                values1, tr0)
             else
               (let req = (if defaultTypeURL \<noteq> AnyType \<and> TypeUrl req1 = ''''
                           then req1\<lparr>TypeUrl := defaultTypeURL\<rparr> else req1);
                    (values2, tr1) = unsubscribeStep s values1 req
                in case (case callbacks s of
                           None \<Rightarrow> (None, [])
                         | Some cb \<Rightarrow>
                             (OnStreamDeltaRequest cb streamID req, [RequestCb streamID req])) of
                     (Some err, tr2) \<Rightarrow> (Returned (Some err), values2, tr0 @ tr1 @ tr2)
                   | (None, tr2) \<Rightarrow>
                       (case reconcile s str streamID values2 req nonce of
                          (out, values3, tr3) \<Rightarrow> (out, values3, tr0 @ tr1 @ tr2 @ tr3)))))"

subsection \<open>The main loop and processDelta\<close>

text \<open>
  The schedule: which case each \<^verbatim>\<open>select\<close> takes, and when a watch producer sends
  on the response channel. Receiving a response is possible only when one is waiting.
  The requests and the closing of their channel come from the reader that
  \<^verbatim>\<open>DeltaStreamHandler\<close> starts.
\<close>

datatype event =
    CtxDone
  | Produce "DeltaResponse option"
  | RecvResponse
  | RecvRequest "DeltaDiscoveryRequest option"
  | RequestsClosed

fun loop ::
  "server \<Rightarrow> DeltaStream \<Rightarrow> string \<Rightarrow> int64 \<Rightarrow> event list \<Rightarrow> watches
     \<Rightarrow> outcome \<times> watches \<times> effect list" where
  "loop s str d streamID [] values = (Running, values, [])"
| "loop s str d streamID (CtxDone # evs) values =
     (Returned None, values,
      if logger s then [LogDebugf ''received signal to end! closing delta processor...'']
      else [])"
| "loop s str d streamID (Produce resp # evs) values =
     loop s str d streamID evs (values\<lparr>deltaResponses := deltaResponses values @ [resp]\<rparr>)"
| "loop s str d streamID (RecvResponse # evs) values =
     (case deltaResponses values of
        [] \<Rightarrow> loop s str d streamID evs values
      | resp # rest \<Rightarrow>
         (case process s str streamID (values\<lparr>deltaResponses := rest\<rparr>) resp of
            (Some err, values1, tr) \<Rightarrow> (Returned (Some err), values1, tr)
          | (None, values1, tr) \<Rightarrow>
             (case loop s str d streamID evs values1 of
                (out, values2, tr2) \<Rightarrow> (out, values2, tr @ tr2))))"
| "loop s str d streamID (RecvRequest r # evs) values =
     (case handleRequest s str d streamID values r of
        (Returned e, values1, tr) \<Rightarrow> (Returned e, values1, tr)
      | (Running, values1, tr) \<Rightarrow>
         (case loop s str d streamID evs values1 of
            (out, values2, tr2) \<Rightarrow> (out, values2, tr @ tr2)))"
| "loop s str d streamID (RequestsClosed # evs) values = (Returned None, values, [])"

text \<open>
  \<^verbatim>\<open>processDelta\<close>. \<^verbatim>\<open>make\<close> panics on a negative buffer size, before the
  teardown is deferred. The teardown is deferred before the stream-open callback is
  called, so it runs on every return after that point.
\<close>

definition teardown :: "server \<Rightarrow> int64 \<Rightarrow> watches \<Rightarrow> effect list" where
  "teardown s streamID values =
     Cancel values @ (if callbacks s \<noteq> None then [StreamClosedCb streamID] else [])"

definition processDelta ::
  "server \<Rightarrow> DeltaStream \<Rightarrow> event list \<Rightarrow> string
     \<Rightarrow> server \<times> outcome \<times> watches \<times> effect list" where
  "processDelta s0 str evs defaultTypeURL =
     (let streamID = streamCount s0 + 1;
          s = s0\<lparr>streamCount := streamID\<rparr>;
          bufferSize = (if defaultTypeURL = AnyType then muxBufferSize s else xdsBufferSize s);
          values = Init (ResponseTypeURLs (cache s))
      in if bufferSize < 0 then
           (s, Returned (Some (Panic ''makechan: size out of range'')), values, [])
         else
           (case (case callbacks s of
                    None \<Rightarrow> loop s str defaultTypeURL streamID evs values
                  | Some cb \<Rightarrow>
                     (case OnDeltaStreamOpen cb streamID defaultTypeURL of
                        Some err \<Rightarrow>
                          (Returned (Some err), values, [StreamOpenCb streamID defaultTypeURL])
                      | None \<Rightarrow>
                         (case loop s str defaultTypeURL streamID evs values of
                            (out, values1, tr) \<Rightarrow>
                              (out, values1, StreamOpenCb streamID defaultTypeURL # tr)))) of
              (Running, values1, tr) \<Rightarrow> (s, Running, values1, tr)
            | (Returned e, values1, tr) \<Rightarrow>
                (s, Returned e, values1, tr @ teardown s streamID values1)))"

text \<open>
  \<^verbatim>\<open>NewServer\<close>: the defaults of the two buffer sizes, then the options in order.
\<close>

definition NewServer ::
  "ConfigWatcher \<Rightarrow> Callbacks option \<Rightarrow> bool \<Rightarrow> (server \<Rightarrow> server) list \<Rightarrow> server" where
  "NewServer config cbs lg opts =
     foldl (\<lambda>out opt. opt out)
       \<lparr>cache = config, callbacks = cbs, streamCount = 0,
        xdsBufferSize = 1, muxBufferSize = 8, logger = lg\<rparr> opts"

definition WithADSBufferSize :: "int \<Rightarrow> server \<Rightarrow> server" where
  "WithADSBufferSize n s = s\<lparr>muxBufferSize := n\<rparr>"

definition WithXDSBufferSize :: "int \<Rightarrow> server \<Rightarrow> server" where
  "WithXDSBufferSize n s = s\<lparr>xdsBufferSize := n\<rparr>"

subsection \<open>Reading a trace\<close>

fun isWatchCall :: "effect \<Rightarrow> bool" where
  "isWatchCall (WatchCall req pending st) = True"
| "isWatchCall e = False"

fun isCancelCall :: "effect \<Rightarrow> bool" where
  "isCancelCall (CancelCall t k) = True"
| "isCancelCall e = False"

fun isRequestCb :: "effect \<Rightarrow> bool" where
  "isRequestCb (RequestCb i req) = True"
| "isRequestCb e = False"

fun isStreamClosedCb :: "effect \<Rightarrow> bool" where
  "isStreamClosedCb (StreamClosedCb i) = True"
| "isStreamClosedCb e = False"

text \<open>What \<^verbatim>\<open>send\<close> does outside: the response callback and the transport.\<close>

fun isSendEffect :: "effect \<Rightarrow> bool" where
  "isSendEffect (ResponseCb i req out) = True"
| "isSendEffect (SendCall out) = True"
| "isSendEffect e = False"

definition watchCalls :: "effect list \<Rightarrow> effect list" where
  "watchCalls tr = filter isWatchCall tr"

definition cancelCalls :: "effect list \<Rightarrow> effect list" where
  "cancelCalls tr = filter isCancelCall tr"

definition requestCbs :: "effect list \<Rightarrow> effect list" where
  "requestCbs tr = filter isRequestCb tr"

definition streamClosedCbs :: "effect list \<Rightarrow> effect list" where
  "streamClosedCbs tr = filter isStreamClosedCb tr"

text \<open>The nonces of the responses handed to the transport, in order.\<close>

fun sentNonces :: "effect list \<Rightarrow> string list" where
  "sentNonces [] = []"
| "sentNonces (SendCall out # tr) = RespNonce out # sentNonces tr"
| "sentNonces (e # tr) = sentNonces tr"

text \<open>
  The type URL a request is handled under: its own, or the default of the stream when it
  has none (lines 295 to 302).
\<close>

definition effectiveTypeUrl :: "string \<Rightarrow> DeltaDiscoveryRequest \<Rightarrow> string" where
  "effectiveTypeUrl defaultTypeURL req =
     (if TypeUrl req = '''' then defaultTypeURL else TypeUrl req)"

text \<open>The test of line 320 on the nonces of a stream.\<close>

definition ackOrFirst :: "watches \<Rightarrow> string \<Rightarrow> string \<Rightarrow> bool" where
  "ackOrFirst values typeURL nonce =
     (map_of (deltaNonces values) typeURL = None
      \<or> map_of (deltaNonces values) typeURL = Some nonce)"

text \<open>
  The request as the stream-request callback and the cache get it: with the node of the
  stream when it had none, and under its effective type URL (lines 285 to 302).
\<close>

definition normalized :: "string \<Rightarrow> watches \<Rightarrow> DeltaDiscoveryRequest \<Rightarrow> DeltaDiscoveryRequest" where
  "normalized defaultTypeURL values req =
     (snd (rehydrate values req))\<lparr>TypeUrl := effectiveTypeUrl defaultTypeURL req\<rparr>"

text \<open>The watches when the stream-request callback is called (lines 285 to 309).\<close>

definition prepared :: "server \<Rightarrow> string \<Rightarrow> watches \<Rightarrow> DeltaDiscoveryRequest \<Rightarrow> watches" where
  "prepared s defaultTypeURL values req =
     fst (unsubscribeStep s (fst (rehydrate values req)) (normalized defaultTypeURL values req))"

text \<open>What the handling of a request logs before the callback: lines 278 to 283 and 304 to 309.\<close>

definition requestLog :: "server \<Rightarrow> string \<Rightarrow> watches \<Rightarrow> DeltaDiscoveryRequest \<Rightarrow> effect list" where
  "requestLog s d v req =
     logErrorDetail s req
     @ snd (unsubscribeStep s (fst (rehydrate v req)) (normalized d v req))"

text \<open>The stream-request callback, when there is one, accepts the request (lines 311 to 315).\<close>

definition requestAccepted ::
  "server \<Rightarrow> string \<Rightarrow> int64 \<Rightarrow> watches \<Rightarrow> DeltaDiscoveryRequest \<Rightarrow> bool" where
  "requestAccepted s d i v req =
     (case callbacks s of
        None \<Rightarrow> True
      | Some cb \<Rightarrow> OnStreamDeltaRequest cb i (normalized d v req) = None)"

fun isLog :: "effect \<Rightarrow> bool" where
  "isLog (LogErrorf d) = True"
| "isLog (LogDebugf m) = True"
| "isLog e = False"

text \<open>The events that change the node a stream remembers: a request that has one.\<close>

fun setsNode :: "event \<Rightarrow> bool" where
  "setsNode (RecvRequest (Some req)) = (Node req \<noteq> None)"
| "setsNode ev = False"

text \<open>
  The watches after a \<^verbatim>\<open>process\<close> that returned nil, for a response to a request of
  type \<open>typeURL\<close> with system version \<open>sv\<close> and version map \<open>vm\<close> (lines 216 to 229).
\<close>

definition processed :: "watches \<Rightarrow> string \<Rightarrow> string \<Rightarrow> (string \<times> string) list \<Rightarrow> watches" where
  "processed v typeURL sv vm =
     v\<lparr>streamNonce := streamNonce v + 1,
       deltaNonces :=
         AList.update typeURL (FormatInt (sint (streamNonce v + 1))) (deltaNonces v),
       deltaCancellations := AList.update typeURL None (deltaCancellations v),
       deltaStreamStates :=
         AList.update typeURL
           \<lparr>Nonce = FormatInt (sint (streamNonce v + 1)),
            SystemVersion = sv, ResourceVersions = vm\<rparr> (deltaStreamStates v)\<rparr>"


text \<open>
  The drain of lines 323 to 330 does not end the stream: there is no non-nil cancel handle
  for the type of the request, or \<^verbatim>\<open>processAll\<close> returns nil.
\<close>

definition drainPasses ::
  "server \<Rightarrow> DeltaStream \<Rightarrow> string \<Rightarrow> int64 \<Rightarrow> watches \<Rightarrow> DeltaDiscoveryRequest \<Rightarrow> bool" where
  "drainPasses s str d i v req =
     (case map_of (deltaCancellations v) (effectiveTypeUrl d req) of
        Some (Some k) \<Rightarrow> fst (processAll s str i (prepared s d v req)) = None
      | _ \<Rightarrow> True)"

subsection \<open>The states of a stream\<close>

text \<open>
  The watches a stream can hold: what \<^verbatim>\<open>Init\<close> makes, closed under the changes
  the processor and the producers make to them. A producer sends on the response channel;
  the processor receives from it (lines 237 and 265), completes a \<^verbatim>\<open>process\<close>,
  prepares a request up to the callback (lines 285 to 309), and registers a watch
  (lines 332 to 336).
\<close>

inductive reach :: "server \<Rightarrow> DeltaStream \<Rightarrow> string \<Rightarrow> int64 \<Rightarrow> watches \<Rightarrow> bool"
  for s :: server and str :: DeltaStream and d :: string and i :: int64 where
  reach_Init: "reach s str d i (Init (ResponseTypeURLs (cache s)))"
| reach_produce:
    "reach s str d i v \<Longrightarrow> reach s str d i (v\<lparr>deltaResponses := deltaResponses v @ [resp]\<rparr>)"
| reach_receive:
    "reach s str d i v \<Longrightarrow> deltaResponses v = resp # rest
       \<Longrightarrow> reach s str d i (v\<lparr>deltaResponses := rest\<rparr>)"
| reach_process:
    "reach s str d i v \<Longrightarrow> process s str i v resp = (None, v', tr) \<Longrightarrow> reach s str d i v'"
| reach_prepared:
    "reach s str d i v \<Longrightarrow> reach s str d i (prepared s d v req)"
| reach_watch:
    "reach s str d i v \<Longrightarrow> createWatch s v req = (v', tr) \<Longrightarrow> reach s str d i v'"

text \<open>
  The nonce recorded for a type and the nonce in its stream state are the same, for every
  type with an entry in both maps.
\<close>

definition noncesAgree :: "watches \<Rightarrow> bool" where
  "noncesAgree v =
     list_all (\<lambda>t. case map_of (deltaStreamStates v) t of
                      None \<Rightarrow> True
                    | Some st \<Rightarrow> map_of (deltaNonces v) t = Some (Nonce st))
       (map fst (deltaNonces v))"

text \<open>
  A list of nonces that numbers the sends of a stream whose counter stood at \<open>c\<close>: the
  \<open>k\<close>-th is the decimal form of the counter after \<open>k\<close> increments.
\<close>

definition numbered :: "int64 \<Rightarrow> string list \<Rightarrow> bool" where
  "numbered c ns =
     (ns = map (\<lambda>k. FormatInt (sint (c + word_of_nat (Suc k)))) [0..<length ns])"

subsection \<open>Sample collaborators and messages\<close>

definition cache0 :: ConfigWatcher where
  "cache0 = \<lparr>CreateDeltaWatch = (\<lambda>k req st. True), ResponseTypeURLs = [''A'', ''B'']\<rparr>"

definition cb0 :: Callbacks where
  "cb0 = \<lparr>OnDeltaStreamOpen = (\<lambda>i t. None), OnStreamDeltaRequest = (\<lambda>i req. None)\<rparr>"

definition cbOpenFails :: Callbacks where
  "cbOpenFails =
     \<lparr>OnDeltaStreamOpen = (\<lambda>i t. Some (Err ''refused'')),
      OnStreamDeltaRequest = (\<lambda>i req. None)\<rparr>"

definition srv0 :: server where
  "srv0 = NewServer cache0 (Some cb0) True []"

definition srvOpenFails :: server where
  "srvOpenFails = NewServer cache0 (Some cbOpenFails) True []"

definition str0 :: DeltaStream where
  "str0 = \<lparr>Send = (\<lambda>out. None)\<rparr>"

definition strBroken :: DeltaStream where
  "strBroken = \<lparr>Send = (\<lambda>out. Some (Err ''broken pipe''))\<rparr>"

definition node0 :: Node where
  "node0 = \<lparr>NodeId = ''n1'', NodeCluster = ''c''\<rparr>"

definition mkReq :: "string \<Rightarrow> string \<Rightarrow> DeltaDiscoveryRequest" where
  "mkReq t n =
     \<lparr>Node = None, TypeUrl = t, ResourceNamesSubscribe = [], ResourceNamesUnsubscribe = [],
      InitialResourceVersions = [], ResponseNonce = n, ErrorDetail = None\<rparr>"

definition mkNack :: "string \<Rightarrow> string \<Rightarrow> DeltaDiscoveryRequest" where
  "mkNack t n = (mkReq t n)\<lparr>ErrorDetail := Some \<lparr>StatusCode = 13, StatusMessage = ''bad''\<rparr>\<rparr>"

definition mkResp :: "string \<Rightarrow> DeltaResponse" where
  "mkResp t =
     \<lparr>GetDeltaRequest = Some (mkReq t ''''),
      GetDeltaDiscoveryResponse =
        Inr (Some \<lparr>SystemVersionInfo = ''v1'', Resources = [], RespTypeUrl = t,
                   RemovedResources = [], RespNonce = ''''\<rparr>),
      GetSystemVersion = Inr ''v1'',
      GetDeltaVersionMap = Inr [(''c1'', ''a'')]\<rparr>"

definition mkRespNoVersion :: "string \<Rightarrow> DeltaResponse" where
  "mkRespNoVersion t = (mkResp t)\<lparr>GetSystemVersion := Inl (Err ''no version'')\<rparr>"


definition firstReq :: DeltaDiscoveryRequest where
  "firstReq = (mkReq ''A'' '''')\<lparr>Node := Some node0\<rparr>"

text \<open>
  The same stream after the acknowledgement of the first response, and its run on to a
  second response whose system version cannot be read.
\<close>

definition ackSchedule :: "event list" where
  "ackSchedule =
     [RecvRequest (Some (mkReq ''A'' '''')), Produce (Some (mkResp ''A'')), RecvResponse,
      RecvRequest (Some (mkReq ''A'' ''1''))]"

definition afterAck :: watches where
  "afterAck = fst (snd (snd (processDelta srv0 str0 ackSchedule ''A'')))"

definition afterVersionError :: watches where
  "afterVersionError =
     fst (snd (snd (processDelta srv0 str0
       (ackSchedule @ [Produce (Some (mkRespNoVersion ''A'')), RecvResponse]) ''A'')))"

definition twoResponseSchedule :: "event list" where
  "twoResponseSchedule = ackSchedule @ [Produce (Some (mkResp ''A'')), RecvResponse]"

text \<open>A server whose stream-request callback refuses every request.\<close>

definition cbRequestFails :: Callbacks where
  "cbRequestFails =
     \<lparr>OnDeltaStreamOpen = (\<lambda>i t. None),
      OnStreamDeltaRequest = (\<lambda>i req. Some (Err ''refused''))\<rparr>"

definition srvRequestFails :: server where
  "srvRequestFails = NewServer cache0 (Some cbRequestFails) True []"



section \<open>Properties of the parts\<close>

lemmas fixture_defs = cache0_def cb0_def cbOpenFails_def cbRequestFails_def srv0_def srvOpenFails_def
  srvRequestFails_def str0_def strBroken_def
  node0_def mkReq_def mkNack_def mkResp_def mkRespNoVersion_def NewServer_def

lemmas model_defs = processDelta_def Init_def initStreamState_def emptyStreamState_def zeroStreamState_def
  handleRequest_def logErrorDetail_def rehydrate_def unsubscribeStep_def unsubscribe_def reconcile_def createWatch_def
  processAll_def process_def send_def update_def teardown_def Cancel_def AnyType_def Let_def

lemma process_channel:
  "process s str i v r = (e, v', tr) \<Longrightarrow> deltaResponses v' = deltaResponses v"
  by (auto simp: process_def send_def update_def Let_def split: option.splits sum.splits prod.splits if_splits)

lemma process_effects:
  "process s str i v r = (e, v', tr) \<Longrightarrow> list_all isSendEffect tr"
  by (auto simp: process_def send_def update_def Let_def split: option.splits sum.splits prod.splits if_splits)

lemma drain_effects:
  "drain s str i q v = (e, v', tr) \<Longrightarrow> list_all isSendEffect tr"
proof (induction q arbitrary: v e v' tr)
  case Nil
  then show ?case by simp
next
  case (Cons r q)
  then show ?case
    by (auto split: prod.splits option.splits dest: process_effects)
qed

lemma watchCalls_send: "list_all isSendEffect tr \<Longrightarrow> watchCalls tr = []"
  by (induction tr) (auto simp: watchCalls_def elim: isSendEffect.elims)

lemma cancelCalls_send: "list_all isSendEffect tr \<Longrightarrow> cancelCalls tr = []"
  by (induction tr) (auto simp: cancelCalls_def elim: isSendEffect.elims)

lemma requestCbs_send: "list_all isSendEffect tr \<Longrightarrow> requestCbs tr = []"
  by (induction tr) (auto simp: requestCbs_def elim: isSendEffect.elims)

lemma streamClosedCbs_send: "list_all isSendEffect tr \<Longrightarrow> streamClosedCbs tr = []"
  by (induction tr) (auto simp: streamClosedCbs_def elim: isSendEffect.elims)

lemma watchCalls_append [simp]: "watchCalls (a @ b) = watchCalls a @ watchCalls b"
  by (simp add: watchCalls_def)

lemma cancelCalls_append [simp]: "cancelCalls (a @ b) = cancelCalls a @ cancelCalls b"
  by (simp add: cancelCalls_def)

lemma requestCbs_append [simp]: "requestCbs (a @ b) = requestCbs a @ requestCbs b"
  by (simp add: requestCbs_def)

lemma streamClosedCbs_append [simp]:
  "streamClosedCbs (a @ b) = streamClosedCbs a @ streamClosedCbs b"
  by (simp add: streamClosedCbs_def)

lemma processAll_effects:
  "processAll s str i v = (e, v', tr) \<Longrightarrow> list_all isSendEffect tr"
  unfolding processAll_def by (rule drain_effects)

text \<open>The reconciliation step.\<close>

lemma reconcile_mismatch:
  "\<not> ackOrFirst v (TypeUrl req) n \<Longrightarrow> reconcile s str i v req n = (Running, v, [])"
  by (auto simp: reconcile_def ackOrFirst_def Let_def)

lemma reconcile_watch:
  assumes "reconcile s str i v req n = (out, v', tr)"
    and "ackOrFirst v (TypeUrl req) n"
  shows "(out = Running \<longrightarrow> (\<exists>p st. watchCalls tr = [WatchCall req p st]))
       \<and> (out \<noteq> Running \<longrightarrow> watchCalls tr = [])"
  using assms
  by (auto simp: reconcile_def ackOrFirst_def Let_def createWatch_def watchCalls_def
      split: option.splits prod.splits
      dest!: processAll_effects watchCalls_send [unfolded watchCalls_def])

lemma unsubscribe_logs: "unsubscribe s u sv = (m, tr) \<Longrightarrow> list_all isLog tr"
  by (auto simp: unsubscribe_def list_all_iff)

lemma unsubscribeStep_logs: "list_all isLog (snd (unsubscribeStep s v req))"
  by (auto simp: unsubscribeStep_def Let_def split: option.splits prod.splits
      dest: unsubscribe_logs intro: unsubscribe_logs [OF surjective_pairing])

lemma logErrorDetail_logs: "list_all isLog (logErrorDetail s req)"
  by (simp add: logErrorDetail_def split: option.splits)

lemma watchCalls_logs: "list_all isLog tr \<Longrightarrow> watchCalls tr = []"
  by (induction tr) (auto simp: watchCalls_def elim: isLog.elims)

lemma cancelCalls_logs: "list_all isLog tr \<Longrightarrow> cancelCalls tr = []"
  by (induction tr) (auto simp: cancelCalls_def elim: isLog.elims)

lemma requestCbs_logs: "list_all isLog tr \<Longrightarrow> requestCbs tr = []"
  by (induction tr) (auto simp: requestCbs_def elim: isLog.elims)

lemma streamClosedCbs_logs: "list_all isLog tr \<Longrightarrow> streamClosedCbs tr = []"
  by (induction tr) (auto simp: streamClosedCbs_def elim: isLog.elims)

lemma sentNonces_logs: "list_all isLog tr \<Longrightarrow> sentNonces tr = []"
  by (induction tr) (auto elim: isLog.elims)

lemma prepared_fields:
  "deltaNonces (prepared s d v req) = deltaNonces v"
  "deltaCancellations (prepared s d v req) = deltaCancellations v"
  "deltaResponses (prepared s d v req) = deltaResponses v"
  "streamNonce (prepared s d v req) = streamNonce v"
  "watchCount (prepared s d v req) = watchCount v"
  "node (prepared s d v req) = (case Node req of Some n \<Rightarrow> n | None \<Rightarrow> node v)"
  by (auto simp: prepared_def unsubscribeStep_def rehydrate_def Let_def
      split: option.splits prod.splits)

lemma normalized_fields:
  "TypeUrl (normalized d v req) = effectiveTypeUrl d req"
  "ResponseNonce (normalized d v req) = ResponseNonce req"
  "ErrorDetail (normalized d v req) = ErrorDetail req"
  "ResourceNamesUnsubscribe (normalized d v req) = ResourceNamesUnsubscribe req"
  "Node (normalized d v req) = Some (case Node req of Some n \<Rightarrow> n | None \<Rightarrow> node v)"
  by (auto simp: normalized_def rehydrate_def split: option.splits)

lemma requestLog_logs: "list_all isLog (requestLog s d v req)"
  by (simp add: requestLog_def logErrorDetail_logs unsubscribeStep_logs)

lemma rehydrate_fields:
  "rehydrate v req0 = (v1, req1) \<Longrightarrow>
     TypeUrl req1 = TypeUrl req0 \<and> ResponseNonce req1 = ResponseNonce req0"
  by (auto simp: rehydrate_def split: option.splits)

lemma handleRequest_Some:
  "handleRequest s str d i v (Some req0) =
     (if d = AnyType \<and> TypeUrl req0 = '''' then
        (Returned (Some (StatusErr InvalidArgument ''type URL is required for ADS'')),
         fst (rehydrate v req0), logErrorDetail s req0)
      else
        (case callbacks s of
           None \<Rightarrow>
             (case reconcile s str i (prepared s d v req0) (normalized d v req0)
                     (ResponseNonce req0) of
                (out, v3, tr3) \<Rightarrow> (out, v3, requestLog s d v req0 @ tr3))
         | Some cb \<Rightarrow>
             (case OnStreamDeltaRequest cb i (normalized d v req0) of
                Some err \<Rightarrow>
                  (Returned (Some err), prepared s d v req0,
                   requestLog s d v req0 @ [RequestCb i (normalized d v req0)])
              | None \<Rightarrow>
                 (case reconcile s str i (prepared s d v req0) (normalized d v req0)
                         (ResponseNonce req0) of
                    (out, v3, tr3) \<Rightarrow>
                      (out, v3,
                       requestLog s d v req0 @ RequestCb i (normalized d v req0) # tr3)))))"
proof (cases "rehydrate v req0")
  case (Pair v1 req1)
  note f = rehydrate_fields [OF Pair]
  show ?thesis
  proof (cases "d = AnyType \<and> TypeUrl req0 = ''''")
    case True
    then show ?thesis
      using Pair f by (simp add: handleRequest_def Let_def)

  next
    case False
    obtain v2 tr1 where u: "unsubscribeStep s v1 (normalized d v req0) = (v2, tr1)"
      by (cases "unsubscribeStep s v1 (normalized d v req0)")
    have p: "prepared s d v req0 = v2"
      and l: "requestLog s d v req0 = logErrorDetail s req0 @ tr1"
      using Pair u by (simp_all add: prepared_def requestLog_def)
    show ?thesis
    proof (cases "TypeUrl req0 = ''''")
      case True
      with False have dn: "d \<noteq> AnyType" by simp
      have n: "normalized d v req0 = req1\<lparr>TypeUrl := d\<rparr>"
        using Pair True by (simp add: normalized_def effectiveTypeUrl_def)
      show ?thesis
        using True dn Pair f u [unfolded n]
        by (simp add: handleRequest_def Let_def n p l split: option.splits prod.splits)
    next
      case nonempty: False
      have n: "normalized d v req0 = req1"
        using Pair nonempty f by (simp add: normalized_def effectiveTypeUrl_def)
      show ?thesis
        using nonempty Pair f u [unfolded n]
        by (simp add: handleRequest_def Let_def n p l split: option.splits prod.splits)
    qed
  qed
qed

lemma watchCalls_simps [simp]:
  "watchCalls [] = []"
  "watchCalls (e # tr) = (if isWatchCall e then e # watchCalls tr else watchCalls tr)"
  by (simp_all add: watchCalls_def)

lemma cancelCalls_simps [simp]:
  "cancelCalls [] = []"
  "cancelCalls (e # tr) = (if isCancelCall e then e # cancelCalls tr else cancelCalls tr)"
  by (simp_all add: cancelCalls_def)

lemma requestCbs_simps [simp]:
  "requestCbs [] = []"
  "requestCbs (e # tr) = (if isRequestCb e then e # requestCbs tr else requestCbs tr)"
  by (simp_all add: requestCbs_def)

lemma streamClosedCbs_simps [simp]:
  "streamClosedCbs [] = []"
  "streamClosedCbs (e # tr) =
     (if isStreamClosedCb e then e # streamClosedCbs tr else streamClosedCbs tr)"
  by (simp_all add: streamClosedCbs_def)

lemma createWatch_effects:
  "createWatch s v req = (v', tr) \<Longrightarrow>
     tr = [WatchCall req (deltaResponses v)
            (case map_of (deltaStreamStates v) (TypeUrl req) of
               None \<Rightarrow> zeroStreamState | Some st \<Rightarrow> st)]"
  by (auto simp: createWatch_def Let_def)

lemma reconcile_mismatch_prepared:
  "\<not> ackOrFirst v (effectiveTypeUrl d req) (ResponseNonce req) \<Longrightarrow>
   reconcile s str i (prepared s d v req) (normalized d v req) (ResponseNonce req)
     = (Running, prepared s d v req, [])"
  by (rule reconcile_mismatch) (simp add: ackOrFirst_def prepared_fields normalized_fields)

lemma reconcile_watch_prepared:
  assumes "reconcile s str i (prepared s d v req) (normalized d v req) (ResponseNonce req)
             = (out, v', tr)"
    and "ackOrFirst v (effectiveTypeUrl d req) (ResponseNonce req)"
  shows "(out = Running \<longrightarrow> (\<exists>p st. watchCalls tr = [WatchCall (normalized d v req) p st]))
       \<and> (out \<noteq> Running \<longrightarrow> watchCalls tr = [])"
  using assms(2)
  by (intro reconcile_watch [OF assms(1)])
     (simp add: ackOrFirst_def prepared_fields normalized_fields)

text \<open>Which requests get a watch.\<close>

lemma handleRequest_watch:
  assumes "handleRequest s str d i v (Some req) = (out, v', tr)"
  shows "(out = Running \<and> ackOrFirst v (effectiveTypeUrl d req) (ResponseNonce req)
            \<longrightarrow> (\<exists>p st. watchCalls tr = [WatchCall (normalized d v req) p st]))
       \<and> (\<not> (out = Running \<and> ackOrFirst v (effectiveTypeUrl d req) (ResponseNonce req))
            \<longrightarrow> watchCalls tr = [])"
proof -
  note lg = watchCalls_logs [OF requestLog_logs] watchCalls_logs [OF logErrorDetail_logs]
  show ?thesis
  proof (cases "ackOrFirst v (effectiveTypeUrl d req) (ResponseNonce req)")
    case True
    show ?thesis
      using assms reconcile_watch_prepared [OF _ True, of s str i]
      by (auto simp: handleRequest_Some lg True
          split: if_splits option.splits prod.splits)
  next
    case False
    show ?thesis
      using assms reconcile_mismatch_prepared [OF False, of s str i]
      by (auto simp: handleRequest_Some lg False
          split: if_splits option.splits prod.splits)
  qed
qed

lemma handleRequest_mismatch:
  assumes "handleRequest s str d i v (Some req) = (out, v', tr)"
    and "\<not> ackOrFirst v (effectiveTypeUrl d req) (ResponseNonce req)"
  shows "cancelCalls tr = [] \<and> deltaCancellations v' = deltaCancellations v"
proof -
  note lg = cancelCalls_logs [OF requestLog_logs] cancelCalls_logs [OF logErrorDetail_logs]
  have r: "deltaCancellations (fst (rehydrate v req)) = deltaCancellations v"
    by (simp add: rehydrate_def split: option.splits)
  show ?thesis
    using assms(1) reconcile_mismatch_prepared [OF assms(2), of s str i]
    by (auto simp: handleRequest_Some lg r prepared_fields
        split: if_splits option.splits prod.splits)
qed

lemma normalized_fill:
  "TypeUrl req = '''' \<Longrightarrow> d \<noteq> AnyType \<Longrightarrow>
     normalized d v (req\<lparr>TypeUrl := d\<rparr>) = normalized d v req"
  by (simp add: normalized_def effectiveTypeUrl_def rehydrate_def AnyType_def
      split: option.splits)

lemma handleRequest_fill:
  assumes "TypeUrl req = ''''" and "d \<noteq> AnyType"
  shows "handleRequest s str d i v (Some (req\<lparr>TypeUrl := d\<rparr>))
           = handleRequest s str d i v (Some req)"
proof -
  have d: "d \<noteq> ''''" using assms(2) by (simp add: AnyType_def)
  have r: "fst (rehydrate v (req\<lparr>TypeUrl := d\<rparr>)) = fst (rehydrate v req)"
    by (simp add: rehydrate_def split: option.splits)
  have l: "logErrorDetail s (req\<lparr>TypeUrl := d\<rparr>) = logErrorDetail s req"
    by (simp add: logErrorDetail_def)
  note n = normalized_fill [OF assms]
  have p: "prepared s d v (req\<lparr>TypeUrl := d\<rparr>) = prepared s d v req"
    by (simp only: prepared_def n r)
  have q: "requestLog s d v (req\<lparr>TypeUrl := d\<rparr>) = requestLog s d v req"
    by (simp only: requestLog_def n r l)
  have c: "\<not> (d = AnyType \<and> TypeUrl (req\<lparr>TypeUrl := d\<rparr>) = [])"
    and c': "\<not> (d = AnyType \<and> TypeUrl req = [])"
    using assms by simp_all
  show ?thesis
    unfolding handleRequest_Some n p q if_not_P [OF c] if_not_P [OF c']
    by (simp split: option.splits)
qed

lemma handleRequest_idle:
  assumes "handleRequest s str d i v (Some req) = (out, v', tr)"
    and "deltaResponses v = []"
  shows "deltaNonces v' = deltaNonces v \<and> deltaResponses v' = []"
proof -
  have r: "deltaNonces (fst (rehydrate v req)) = deltaNonces v"
    "deltaResponses (fst (rehydrate v req)) = deltaResponses v"
    by (simp_all add: rehydrate_def split: option.splits)
  have p: "processAll s str i (prepared s d v req) = (None, prepared s d v req, [])"
    using assms(2) by (simp add: processAll_def prepared_fields)
  show ?thesis
    using assms
    by (auto simp: handleRequest_Some reconcile_def createWatch_def Let_def p r prepared_fields
        split: if_splits option.splits prod.splits)
qed

lemma reconcile_no_closed:
  "reconcile s str i v req n = (out, v', tr) \<Longrightarrow> streamClosedCbs tr = []"
  by (auto simp: reconcile_def Let_def createWatch_def
      split: if_splits option.splits prod.splits
      dest!: processAll_effects streamClosedCbs_send)

lemma handleRequest_no_closed:
  assumes "handleRequest s str d i v r = (out, v', tr)"
  shows "streamClosedCbs tr = []"
proof (cases r)
  case None
  with assms show ?thesis by (simp add: handleRequest_def)
next
  case (Some req)
  note lg = streamClosedCbs_logs [OF requestLog_logs] streamClosedCbs_logs [OF logErrorDetail_logs]
  show ?thesis
    using assms unfolding Some
    by (auto simp: handleRequest_Some lg split: if_splits option.splits prod.splits
        dest: reconcile_no_closed)
qed

lemma loop_no_closed:
  "loop s str d i evs v = (out, v', tr) \<Longrightarrow> streamClosedCbs tr = []"
proof (induction evs arbitrary: v out v' tr)
  case Nil
  then show ?case by simp
next
  case (Cons ev evs)
  show ?case
  proof (cases ev)
    case CtxDone
    with Cons.prems show ?thesis by auto
  next
    case (Produce resp)
    with Cons.prems Cons.IH show ?thesis by auto
  next
    case RecvResponse
    show ?thesis
    proof (cases "deltaResponses v")
      case Nil
      with Cons.prems Cons.IH RecvResponse show ?thesis by auto
    next
      case queue: (Cons resp rest)
      obtain e v1 tr1 where
        p: "process s str i (v\<lparr>deltaResponses := rest\<rparr>) resp = (e, v1, tr1)"
        by (rule prod_cases3)
      note c = streamClosedCbs_send [OF process_effects [OF p]]
      show ?thesis
        using Cons.prems Cons.IH [of v1] RecvResponse queue p c
        by (auto split: option.splits prod.splits)
    qed
  next
    case (RecvRequest r)
    obtain o1 v1 tr1 where h: "handleRequest s str d i v r = (o1, v1, tr1)"
      by (rule prod_cases3)
    note c = handleRequest_no_closed [OF h]
    show ?thesis
      using Cons.prems Cons.IH [of v1] RecvRequest h c
      by (auto split: outcome.splits prod.splits)
  next
    case RequestsClosed
    with Cons.prems show ?thesis by auto
  qed
qed

lemma cancelAll_no_closed: "streamClosedCbs (cancelAll cs) = []"
  by (induction cs rule: cancelAll.induct) auto




lemma digit_chars:
  "digit 0 = CHR ''0''" "digit 1 = CHR ''1''" "digit 2 = CHR ''2''" "digit 3 = CHR ''3''"
  "digit 4 = CHR ''4''" "digit 5 = CHR ''5''" "digit 6 = CHR ''6''" "digit 7 = CHR ''7''"
  "digit 8 = CHR ''8''" "digit 9 = CHR ''9''" "digit (Suc 0) = CHR ''1''"
  by code_simp+


lemma afterAck_eq:
  "afterAck =
     \<lparr>deltaStreamStates =
        [(''A'', \<lparr>Nonce = ''1'', SystemVersion = ''v1'', ResourceVersions = [(''c1'', ''a'')]\<rparr>),
         (''B'', emptyStreamState)],
      deltaResponses = [],
      deltaCancellations = [(''A'', Some 1)],
      deltaNonces = [(''A'', ''1'')],
      streamNonce = 1,
      node = \<lparr>NodeId = '''', NodeCluster = ''''\<rparr>,
      watchCount = 2\<rparr>"
  by (simp add: afterAck_def ackSchedule_def fixture_defs model_defs FormatInt_def
      decimal.simps digit_chars)

lemma afterVersionError_eq:
  "afterVersionError =
     \<lparr>deltaStreamStates = [(''A'', zeroStreamState), (''B'', emptyStreamState)],
      deltaResponses = [],
      deltaCancellations = [(''A'', None)],
      deltaNonces = [(''A'', ''2'')],
      streamNonce = 2,
      node = \<lparr>NodeId = '''', NodeCluster = ''''\<rparr>,
      watchCount = 2\<rparr>"
  by (simp add: afterVersionError_def ackSchedule_def fixture_defs model_defs FormatInt_def
      decimal.simps digit_chars)

lemma process_node:
  "process s str i v r = (e, v', tr) \<Longrightarrow> node v' = node v"
  by (auto simp: process_def send_def update_def Let_def
      split: option.splits sum.splits prod.splits if_splits)

lemma drain_node:
  "drain s str i q v = (e, v', tr) \<Longrightarrow> node v' = node v"
proof (induction q arbitrary: v e v' tr)
  case Nil
  then show ?case by simp
next
  case (Cons r q)
  obtain e1 v1 tr1 where
    p: "process s str i (v\<lparr>deltaResponses := q\<rparr>) r = (e1, v1, tr1)"
    by (rule prod_cases3)
  show ?case
    using Cons.prems Cons.IH [of v1] p process_node [OF p]
    by (auto split: option.splits prod.splits)
qed

lemma reconcile_node:
  "reconcile s str i v req n = (out, v', tr) \<Longrightarrow> node v' = node v"
  by (auto simp: reconcile_def processAll_def createWatch_def Let_def
      split: if_splits option.splits prod.splits dest: drain_node)

lemma handleRequest_node:
  assumes "handleRequest s str d i v (Some req) = (out, v', tr)"
  shows "node v' = (case Node req of Some n \<Rightarrow> n | None \<Rightarrow> node v)"
proof -
  have r: "node (fst (rehydrate v req)) = (case Node req of Some n \<Rightarrow> n | None \<Rightarrow> node v)"
    by (simp add: rehydrate_def split: option.splits)
  show ?thesis
    using assms
    by (auto simp: handleRequest_Some r prepared_fields
        split: if_splits option.splits prod.splits dest!: reconcile_node)
qed

lemma reconcile_no_requestCbs:
  "reconcile s str i v req n = (out, v', tr) \<Longrightarrow> requestCbs tr = []"
  by (auto simp: reconcile_def Let_def createWatch_def
      split: if_splits option.splits prod.splits
      dest!: processAll_effects requestCbs_send)

lemma handleRequest_requestCbs:
  assumes "handleRequest s str d i v (Some req) = (out, v', tr)"
  shows "requestCbs tr =
           (if callbacks s \<noteq> None \<and> \<not> (d = AnyType \<and> TypeUrl req = '''')
            then [RequestCb i (normalized d v req)] else [])"
proof -
  note lg = requestCbs_logs [OF requestLog_logs] requestCbs_logs [OF logErrorDetail_logs]
  show ?thesis
    using assms
    by (auto simp: handleRequest_Some lg split: if_splits option.splits prod.splits
        dest!: reconcile_no_requestCbs)
qed

lemma loop_node:
  "loop s str d i evs v = (Running, v', tr) \<Longrightarrow> \<not> list_ex setsNode evs \<Longrightarrow> node v' = node v"
proof (induction evs arbitrary: v v' tr)
  case Nil
  then show ?case by simp
next
  case (Cons ev evs)
  show ?case
  proof (cases ev)
    case CtxDone
    with Cons.prems show ?thesis by auto
  next
    case (Produce resp)
    with Cons.prems Cons.IH [of "v\<lparr>deltaResponses := deltaResponses v @ [resp]\<rparr>"]
    show ?thesis by auto
  next
    case RecvResponse
    show ?thesis
    proof (cases "deltaResponses v")
      case Nil
      with Cons.prems Cons.IH RecvResponse show ?thesis by auto
    next
      case queue: (Cons resp rest)
      obtain e v1 tr1 where
        p: "process s str i (v\<lparr>deltaResponses := rest\<rparr>) resp = (e, v1, tr1)"
        by (rule prod_cases3)
      show ?thesis
        using Cons.prems Cons.IH [of v1] RecvResponse queue p process_node [OF p]
        by (auto split: option.splits prod.splits)
    qed
  next
    case (RecvRequest r)
    show ?thesis
    proof (cases r)
      case None
      with Cons.prems RecvRequest show ?thesis by (simp add: handleRequest_def)
    next
      case (Some req)
      obtain o1 v1 tr1 where h: "handleRequest s str d i v (Some req) = (o1, v1, tr1)"
        by (rule prod_cases3)
      show ?thesis
        using Cons.prems Cons.IH [of v1] RecvRequest Some h handleRequest_node [OF h]
        by (auto split: outcome.splits prod.splits)
    qed
  next
    case RequestsClosed
    with Cons.prems show ?thesis by auto
  qed
qed

lemma decimal_nonempty: "decimal n \<noteq> []"
  by (subst decimal.simps) simp

lemma FormatInt_nonempty: "FormatInt k \<noteq> []"
  by (simp add: FormatInt_def decimal_nonempty)

lemma send_Inr:
  assumes "send s str i v resp = (Inr nonce, v1, tr)"
  shows "\<exists>r out0. resp = Some r \<and> GetDeltaDiscoveryResponse r = Inr (Some out0)
           \<and> nonce = FormatInt (sint (streamNonce v + 1))
           \<and> v1 = v\<lparr>streamNonce := streamNonce v + 1\<rparr>
           \<and> Send str (out0\<lparr>RespNonce := nonce\<rparr>) = None
           \<and> sentNonces tr = [nonce]"
  using assms
  by (auto simp: send_def Let_def split: option.splits sum.splits if_splits)

lemma process_None:
  assumes "process s str i v resp = (None, v', tr)"
  shows "\<exists>r rq sv vm. resp = Some r \<and> GetDeltaRequest r = Some rq
           \<and> GetSystemVersion r = Inr sv \<and> GetDeltaVersionMap r = Inr vm
           \<and> v' = processed v (TypeUrl rq) sv vm
           \<and> sentNonces tr = [FormatInt (sint (streamNonce v + 1))]"
proof -
  obtain x v1 tr1 where sd: "send s str i v resp = (x, v1, tr1)"
    by (rule prod_cases3)
  show ?thesis
  proof (cases x)
    case (Inl e)
    with assms sd show ?thesis by (simp add: process_def)
  next
    case (Inr nonce)
    from send_Inr [OF sd [unfolded Inr]] obtain r out0 where
      r: "resp = Some r" and n: "nonce = FormatInt (sint (streamNonce v + 1))"
      and v1: "v1 = v\<lparr>streamNonce := streamNonce v + 1\<rparr>" and sn: "sentNonces tr1 = [nonce]"
      by blast
    show ?thesis
      using assms sd Inr r n v1 sn
      by (auto simp: process_def update_def processed_def Let_def
          split: option.splits sum.splits)
  qed
qed

lemma processed_maps:
  "map_of (deltaNonces (processed v t sv vm)) =
     (map_of (deltaNonces v))(t \<mapsto> FormatInt (sint (streamNonce v + 1)))"
  "map_of (deltaCancellations (processed v t sv vm)) = (map_of (deltaCancellations v))(t \<mapsto> None)"
  "map_of (deltaStreamStates (processed v t sv vm)) =
     (map_of (deltaStreamStates v))(t \<mapsto> \<lparr>Nonce = FormatInt (sint (streamNonce v + 1)),
        SystemVersion = sv, ResourceVersions = vm\<rparr>)"
  "deltaResponses (processed v t sv vm) = deltaResponses v"
  "streamNonce (processed v t sv vm) = streamNonce v + 1"
  by (simp_all add: processed_def update_conv')

lemma noncesAgree_iff:
  "noncesAgree v \<longleftrightarrow>
     (\<forall>t n st. map_of (deltaNonces v) t = Some n \<and> map_of (deltaStreamStates v) t = Some st
        \<longrightarrow> Nonce st = n)"
proof
  assume a: "noncesAgree v"
  show "\<forall>t n st. map_of (deltaNonces v) t = Some n \<and> map_of (deltaStreamStates v) t = Some st
          \<longrightarrow> Nonce st = n"
  proof (intro allI impI, elim conjE)
    fix t n st
    assume n: "map_of (deltaNonces v) t = Some n" and st: "map_of (deltaStreamStates v) t = Some st"
    from n have "t \<in> set (map fst (deltaNonces v))"
      by (metis map_of_eq_None_iff option.distinct(1) set_map)
    with a st have "map_of (deltaNonces v) t = Some (Nonce st)"
      by (auto simp: noncesAgree_def list_all_iff)
    with n show "Nonce st = n" by simp
  qed
next
  assume a: "\<forall>t n st. map_of (deltaNonces v) t = Some n \<and> map_of (deltaStreamStates v) t = Some st
          \<longrightarrow> Nonce st = n"
  show "noncesAgree v"
    unfolding noncesAgree_def list_all_iff
  proof
    fix t
    assume "t \<in> set (map fst (deltaNonces v))"
    then obtain n where n: "map_of (deltaNonces v) t = Some n"
      by (metis map_of_eq_None_iff not_Some_eq set_map)
    show "case map_of (deltaStreamStates v) t of None \<Rightarrow> True
          | Some st \<Rightarrow> map_of (deltaNonces v) t = Some (Nonce st)"
      using a n by (auto split: option.splits)
  qed
qed

lemma noncesAgree_Init: "noncesAgree (Init urls)"
  by (simp add: noncesAgree_def Init_def)

lemma noncesAgree_process:
  assumes "process s str i v resp = (None, v', tr)" and "noncesAgree v"
  shows "noncesAgree v'"
proof -
  from process_None [OF assms(1)] obtain t sv vm where
    v': "v' = processed v t sv vm"
    by blast
  show ?thesis
    using assms(2) unfolding noncesAgree_iff v' processed_maps
    by (auto split: if_splits)
qed

lemma noncesAgree_prepared:
  assumes "noncesAgree v"
  shows "noncesAgree (prepared s d v req)"
proof -
  have st: "map_of (deltaStreamStates (prepared s d v req)) t = Some st'
            \<Longrightarrow> \<exists>st. map_of (deltaStreamStates v) t = Some st \<and> Nonce st' = Nonce st" for t st'
    by (auto simp: prepared_def unsubscribeStep_def rehydrate_def Let_def update_conv'
        split: option.splits prod.splits if_splits)
  show ?thesis
    using assms unfolding noncesAgree_iff prepared_fields
    by (metis st)
qed

lemma noncesAgree_reach: "reach s str d i v \<Longrightarrow> noncesAgree v"
proof (induction rule: reach.induct)
  case reach_Init
  show ?case by (rule noncesAgree_Init)
next
  case (reach_produce v resp)
  then show ?case by (simp add: noncesAgree_iff)
next
  case (reach_receive v resp rest)
  then show ?case by (simp add: noncesAgree_iff)
next
  case (reach_process v resp v' tr)
  then show ?case by (auto intro: noncesAgree_process)
next
  case (reach_prepared v req)
  then show ?case by (auto intro: noncesAgree_prepared)
next
  case (reach_watch v req v' tr)
  then show ?case by (auto simp: noncesAgree_iff createWatch_def Let_def)
qed

text \<open>The runs of the loop stay among these states.\<close>

lemma drain_reach:
  "reach s str d i v \<Longrightarrow> deltaResponses v = q \<Longrightarrow> drain s str i q v = (None, v', tr)
     \<Longrightarrow> reach s str d i v'"
proof (induction q arbitrary: v tr)
  case Nil
  then show ?case by simp
next
  case (Cons resp rest)
  obtain e v1 tr1 where
    p: "process s str i (v\<lparr>deltaResponses := rest\<rparr>) resp = (e, v1, tr1)"
    by (rule prod_cases3)
  have r: "reach s str d i (v\<lparr>deltaResponses := rest\<rparr>)"
    by (rule reach_receive [OF Cons.prems(1,2)])
  show ?case
  proof (cases e)
    case None
    have r1: "reach s str d i v1"
      by (rule reach_process [OF r p [unfolded None]])
    have q1: "deltaResponses v1 = rest"
      using process_channel [OF p] by simp
    show ?thesis
      using Cons.prems(3) p None Cons.IH [OF r1 q1]
      by (auto split: prod.splits)
  next
    case (Some err)
    with Cons.prems(3) p show ?thesis by simp
  qed
qed

lemma handleRequest_reach:
  assumes "reach s str d i v" and "handleRequest s str d i v r = (Running, v', tr)"
  shows "reach s str d i v'"
proof (cases r)
  case None
  with assms show ?thesis by (simp add: handleRequest_def)
next
  case (Some req)
  have p: "reach s str d i (prepared s d v req)"
    by (rule reach_prepared [OF assms(1)])
  have rc: "reach s str d i w'"
    if "reconcile s str i (prepared s d v req) (normalized d v req) n = (Running, w', tr')"
    for n w' tr'
    using that p
    by (auto simp: reconcile_def Let_def processAll_def
        split: if_splits option.splits prod.splits
        intro: reach_watch dest: drain_reach [OF p refl])
  show ?thesis
    using assms(2) unfolding Some
    by (auto simp: handleRequest_Some split: if_splits option.splits prod.splits dest: rc)
qed

lemma loop_reach:
  "reach s str d i v \<Longrightarrow> loop s str d i evs v = (Running, v', tr) \<Longrightarrow> reach s str d i v'"
proof (induction evs arbitrary: v tr)
  case Nil
  then show ?case by simp
next
  case (Cons ev evs)
  show ?case
  proof (cases ev)
    case CtxDone
    with Cons.prems show ?thesis by simp
  next
    case (Produce resp)
    with Cons.prems Cons.IH [OF reach_produce [OF Cons.prems(1), of resp]]
    show ?thesis by simp
  next
    case RecvResponse
    show ?thesis
    proof (cases "deltaResponses v")
      case Nil
      with Cons.prems Cons.IH RecvResponse show ?thesis by auto
    next
      case queue: (Cons resp rest)
      obtain e v1 tr1 where
        p: "process s str i (v\<lparr>deltaResponses := rest\<rparr>) resp = (e, v1, tr1)"
        by (rule prod_cases3)
      have r: "reach s str d i (v\<lparr>deltaResponses := rest\<rparr>)"
        by (rule reach_receive [OF Cons.prems(1) queue])
      show ?thesis
        using Cons.prems(2) Cons.IH [of v1] RecvResponse queue p reach_process [OF r, of resp v1 tr1]
        by (auto split: option.splits prod.splits)
    qed
  next
    case (RecvRequest r)
    obtain o1 v1 tr1 where h: "handleRequest s str d i v r = (o1, v1, tr1)"
      by (rule prod_cases3)
    show ?thesis
      using Cons.prems(2) Cons.IH [of v1] RecvRequest h handleRequest_reach [OF Cons.prems(1), of r v1 tr1]
      by (auto split: outcome.splits prod.splits)
  next
    case RequestsClosed
    with Cons.prems show ?thesis by simp
  qed
qed

lemma sentNonces_append [simp]: "sentNonces (a @ b) = sentNonces a @ sentNonces b"
  by (induction a rule: sentNonces.induct) auto

lemma drain_all:
  "deltaResponses v = q \<Longrightarrow> drain s str i q v = (None, v', tr)
     \<Longrightarrow> deltaResponses v' = [] \<and> length (sentNonces tr) = length q"
proof (induction q arbitrary: v tr)
  case Nil
  then show ?case by simp
next
  case (Cons resp rest)
  obtain e v1 tr1 where
    p: "process s str i (v\<lparr>deltaResponses := rest\<rparr>) resp = (e, v1, tr1)"
    by (rule prod_cases3)
  show ?case
  proof (cases e)
    case None
    have q1: "deltaResponses v1 = rest"
      using process_channel [OF p] by simp
    from process_None [OF p [unfolded None]] have s1: "length (sentNonces tr1) = 1"
      by auto
    obtain e2 v2 tr2 where d2: "drain s str i rest v1 = (e2, v2, tr2)"
      by (rule prod_cases3)
    show ?thesis
      using Cons.prems(2) p None d2 s1 Cons.IH [OF q1, of tr2]
      by (auto split: prod.splits)
  next
    case (Some err)
    with Cons.prems(2) p show ?thesis by simp
  qed
qed

lemma reconcile_replace:
  assumes "reconcile s str i v req n = (out, v', tr)"
    and "map_of (deltaCancellations v) (TypeUrl req) = Some (Some k)"
    and "watchCalls tr \<noteq> []"
  shows "\<exists>v1 dr st. processAll s str i v = (None, v1, dr)
           \<and> tr = CancelCall (TypeUrl req) k # dr @ [WatchCall req [] st]
           \<and> length (sentNonces dr) = length (deltaResponses v)
           \<and> deltaResponses v' = []"
proof (cases "ackOrFirst v (TypeUrl req) n")
  case False
  with assms(1,3) show ?thesis by (simp add: reconcile_mismatch)
next
  case True
  obtain e v1 dr where pa: "processAll s str i v = (e, v1, dr)"
    by (rule prod_cases3)
  show ?thesis
  proof (cases e)
    case (Some err)
    with assms True pa watchCalls_send [OF processAll_effects [OF pa]]
    show ?thesis
      by (auto simp: reconcile_def ackOrFirst_def Let_def)
  next
    case None
    note da = drain_all [OF refl pa [unfolded processAll_def None]]
    show ?thesis
      using assms(1,2) True pa None da
      by (auto simp: reconcile_def ackOrFirst_def Let_def createWatch_def)
  qed
qed

lemma numbered_iff:
  "numbered c ns \<longleftrightarrow>
     (\<forall>k < length ns. ns ! k = FormatInt (sint (c + word_of_nat (Suc k))))"
  unfolding numbered_def
  by (subst list_eq_iff_nth_eq) (simp del: of_nat_Suc)

lemma numbered_Nil [simp]: "numbered c []"
  by (simp add: numbered_iff)

lemma numbered_one: "numbered c [FormatInt (sint (c + 1))]"
  by (simp add: numbered_iff)

lemma numbered_append:
  assumes "numbered c a" and "numbered (c + word_of_nat (length a)) b"
  shows "numbered c (a @ b)"
  unfolding numbered_iff
proof (intro allI impI)
  fix k
  assume k: "k < length (a @ b)"
  show "(a @ b) ! k = FormatInt (sint (c + word_of_nat (Suc k)))"
  proof (cases "k < length a")
    case True
    with assms(1) show ?thesis by (simp add: numbered_iff nth_append del: of_nat_Suc)
  next
    case False
    then have kb: "k - length a < length b" using k by simp
    have "word_of_nat (length a) + word_of_nat (Suc (k - length a)) = (word_of_nat (Suc k) :: int64)"
      using False by (simp flip: of_nat_add)
    then have eq: "c + word_of_nat (length a) + word_of_nat (Suc (k - length a))
                 = c + (word_of_nat (Suc k) :: int64)"
      by (simp add: add.assoc)
    have "(a @ b) ! k = b ! (k - length a)"
      using False by (simp add: nth_append)
    also have "\<dots> = FormatInt (sint (c + word_of_nat (length a) + word_of_nat (Suc (k - length a))))"
      using assms(2) kb unfolding numbered_iff by blast
    also have "\<dots> = FormatInt (sint (c + word_of_nat (Suc k)))"
      by (simp only: eq)
    finally show ?thesis .
  qed
qed

lemma process_numbered:
  assumes "process s str i v r = (e, v', tr)"
  shows "numbered (streamNonce v) (sentNonces tr)
       \<and> (e = None \<longrightarrow> streamNonce v' = streamNonce v + word_of_nat (length (sentNonces tr)))"
  using assms numbered_one [of "streamNonce v"]
  by (auto simp: process_def send_def update_def Let_def
      split: option.splits sum.splits prod.splits if_splits)

lemma numbered_step:
  assumes "numbered c a" and "c1 = c + word_of_nat (length a)"
    and "numbered c1 b" and "ok \<longrightarrow> c2 = c1 + word_of_nat (length b)"
  shows "numbered c (a @ b) \<and> (ok \<longrightarrow> c2 = c + word_of_nat (length (a @ b)))"
  using assms numbered_append [of c a b] by (simp add: add.assoc)

lemma drain_numbered:
  "drain s str i q v = (e, v', tr) \<Longrightarrow>
     numbered (streamNonce v) (sentNonces tr)
     \<and> (e = None \<longrightarrow> streamNonce v' = streamNonce v + word_of_nat (length (sentNonces tr)))"
proof (induction q arbitrary: v e v' tr)
  case Nil
  then show ?case by simp
next
  case (Cons resp rest)
  obtain e1 v1 tr1 where
    p: "process s str i (v\<lparr>deltaResponses := rest\<rparr>) resp = (e1, v1, tr1)"
    by (rule prod_cases3)
  note n1 = process_numbered [OF p, simplified]
  show ?case
  proof (cases e1)
    case (Some err)
    with Cons.prems p n1 show ?thesis by auto
  next
    case None
    obtain e2 v2 tr2 where d2: "drain s str i rest v1 = (e2, v2, tr2)"
      by (rule prod_cases3)
    note n2 = Cons.IH [OF d2]
    have r: "e = e2" "v' = v2" "tr = tr1 @ tr2"
      using Cons.prems p None d2 by auto
    show ?thesis
      unfolding r sentNonces_append
      using n1 n2 None
      by (intro numbered_step [where ?c1.0 = "streamNonce v1"]) auto
  qed
qed

lemma cancelAll_sent: "sentNonces (cancelAll cs) = []"
  by (induction cs rule: cancelAll.induct) auto

lemma reconcile_numbered:
  assumes "reconcile s str i v req n = (out, v', tr)"
  shows "numbered (streamNonce v) (sentNonces tr)
       \<and> (out = Running \<longrightarrow> streamNonce v' = streamNonce v + word_of_nat (length (sentNonces tr)))"
  using assms
  by (auto simp: reconcile_def processAll_def createWatch_def Let_def
      split: if_splits option.splits prod.splits dest!: drain_numbered)

lemma handleRequest_numbered:
  assumes "handleRequest s str d i v r = (out, v', tr)"
  shows "numbered (streamNonce v) (sentNonces tr)
       \<and> (out = Running \<longrightarrow> streamNonce v' = streamNonce v + word_of_nat (length (sentNonces tr)))"
proof (cases r)
  case None
  with assms show ?thesis by (auto simp: handleRequest_def)
next
  case (Some req)
  note lg = sentNonces_logs [OF requestLog_logs] sentNonces_logs [OF logErrorDetail_logs]
  show ?thesis
    using assms unfolding Some
    by (auto simp: handleRequest_Some lg split: if_splits option.splits prod.splits
        dest!: reconcile_numbered simp: prepared_fields)
qed

lemma loop_numbered:
  "loop s str d i evs v = (out, v', tr) \<Longrightarrow> numbered (streamNonce v) (sentNonces tr)"
proof (induction evs arbitrary: v out v' tr)
  case Nil
  then show ?case by simp
next
  case (Cons ev evs)
  show ?case
  proof (cases ev)
    case CtxDone
    with Cons.prems show ?thesis by auto
  next
    case (Produce resp)
    with Cons.prems Cons.IH [of "v\<lparr>deltaResponses := deltaResponses v @ [resp]\<rparr>"]
    show ?thesis by auto
  next
    case RecvResponse
    show ?thesis
    proof (cases "deltaResponses v")
      case Nil
      with Cons.prems Cons.IH RecvResponse show ?thesis by auto
    next
      case queue: (Cons resp rest)
      obtain e v1 tr1 where
        p: "process s str i (v\<lparr>deltaResponses := rest\<rparr>) resp = (e, v1, tr1)"
        by (rule prod_cases3)
      note n1 = process_numbered [OF p, simplified]
      show ?thesis
      proof (cases e)
        case (Some err)
        with Cons.prems RecvResponse queue p n1 show ?thesis by auto
      next
        case None
        obtain o2 v2 tr2 where l: "loop s str d i evs v1 = (o2, v2, tr2)"
          by (rule prod_cases3)
        have r: "tr = tr1 @ tr2"
          using Cons.prems RecvResponse queue p None l by auto
        show ?thesis
          unfolding r sentNonces_append
          using n1 None Cons.IH [OF l] by (intro numbered_append) auto
      qed
    qed
  next
    case (RecvRequest r)
    obtain o1 v1 tr1 where h: "handleRequest s str d i v r = (o1, v1, tr1)"
      by (rule prod_cases3)
    note n1 = handleRequest_numbered [OF h]
    show ?thesis
    proof (cases o1)
      case (Returned e)
      with Cons.prems RecvRequest h n1 show ?thesis by auto
    next
      case Running
      obtain o2 v2 tr2 where l: "loop s str d i evs v1 = (o2, v2, tr2)"
        by (rule prod_cases3)
      have r: "tr = tr1 @ tr2"
        using Cons.prems RecvRequest h Running l by auto
      show ?thesis
        unfolding r sentNonces_append
        using n1 Running Cons.IH [OF l] by (intro numbered_append) auto
    qed
  next
    case RequestsClosed
    with Cons.prems show ?thesis by auto
  qed
qed

lemma processDelta_numbered:
  assumes "processDelta s0 str evs d = (s1, out, v, tr)"
  shows "numbered 0 (sentNonces tr)"
proof -
  have l: "numbered 0 (sentNonces ltr)"
    if "loop s str t i evs (Init urls) = (o1, v1, ltr)" for s t i urls o1 v1 ltr
    using loop_numbered [OF that] by (simp add: Init_def)
  show ?thesis
    using assms
    by (auto simp: processDelta_def Let_def teardown_def Cancel_def cancelAll_sent
        split: if_splits option.splits prod.splits outcome.splits dest!: l)
qed

text \<open>Decimal strings read back.\<close>

lemma digit_value: "d < 10 \<Longrightarrow> of_char (digit d) - 48 = d"
  by (simp add: digit_def)

lemma digits_value_snoc: "digits_value (cs @ [c]) = 10 * digits_value cs + (of_char c - 48)"
  by (simp add: digits_value_def)

lemma digits_value_decimal: "digits_value (decimal n) = n"
proof (induction n rule: decimal.induct)
  case (1 n)
  show ?case
  proof (cases "n < 10")
    case True
    then show ?thesis
      by (subst decimal.simps) (simp add: digits_value_def digit_value)
  next
    case False
    then show ?thesis
      using 1 by (subst decimal.simps) (simp add: digits_value_snoc digit_value)
  qed
qed

lemma digit_not_minus: "d < 10 \<Longrightarrow> digit d \<noteq> CHR ''-''"
proof
  assume d: "d < 10" and "digit d = CHR ''-''"
  then have "(of_char (digit d) :: nat) = of_char CHR ''-''" by simp
  with d show False by (simp add: digit_def)
qed

lemma decimal_head: "\<exists>d rest. d < 10 \<and> decimal n = digit d # rest"
proof (induction n rule: decimal.induct)
  case (1 n)
  show ?case
  proof (cases "n < 10")
    case True
    then show ?thesis by (subst decimal.simps) auto
  next
    case False
    with 1 obtain d rest where "d < 10" "decimal (n div 10) = digit d # rest" by blast
    with False show ?thesis by (subst decimal.simps) auto
  qed
qed

lemma nonce_value_decimal: "nonce_value (decimal n) = int n"
proof -
  obtain d rest where d: "d < 10" "decimal n = digit d # rest"
    using decimal_head by blast
  have "nonce_value (decimal n) = int (digits_value (decimal n))"
    using digit_not_minus [OF d(1)] by (simp add: nonce_value_def d(2))
  then show ?thesis by (simp add: digits_value_decimal)
qed

lemma sint_counter: "n < 2 ^ 63 \<Longrightarrow> sint (word_of_nat n :: int64) = int n"
  by (simp add: signed_of_nat signed_take_bit_int_eq_self)

lemma handleRequest_replace:
  assumes "handleRequest s str d i v (Some req) = (out, v', tr)"
    and "map_of (deltaCancellations v) (effectiveTypeUrl d req) = Some (Some k)"
    and "watchCalls tr \<noteq> []"
  shows "\<exists>pre v1 dr st.
           tr = pre @ CancelCall (effectiveTypeUrl d req) k # dr
                  @ [WatchCall (normalized d v req) [] st]
           \<and> cancelCalls pre = [] \<and> sentNonces pre = [] \<and> watchCalls pre = []
           \<and> processAll s str i (prepared s d v req) = (None, v1, dr)
           \<and> list_all isSendEffect dr
           \<and> length (sentNonces dr) = length (deltaResponses v)
           \<and> deltaResponses v' = []"
proof -
  let ?t = "effectiveTypeUrl d req"
  have c: "map_of (deltaCancellations (prepared s d v req)) (TypeUrl (normalized d v req))
             = Some (Some k)"
    using assms(2) by (simp add: prepared_fields normalized_fields)
  have lg: "cancelCalls (requestLog s d v req) = []" "sentNonces (requestLog s d v req) = []"
    "watchCalls (requestLog s d v req) = []" "watchCalls (logErrorDetail s req) = []"
    by (simp_all add: cancelCalls_logs sentNonces_logs watchCalls_logs requestLog_logs
        logErrorDetail_logs)
  have main: "\<exists>pre v1 dr st.
           pre0 @ tr3 = pre @ CancelCall ?t k # dr @ [WatchCall (normalized d v req) [] st]
           \<and> cancelCalls pre = [] \<and> sentNonces pre = [] \<and> watchCalls pre = []
           \<and> processAll s str i (prepared s d v req) = (None, v1, dr)
           \<and> list_all isSendEffect dr
           \<and> length (sentNonces dr) = length (deltaResponses v)
           \<and> deltaResponses v' = []"
    if r: "reconcile s str i (prepared s d v req) (normalized d v req) (ResponseNonce req)
             = (out, v', tr3)"
      and w: "watchCalls tr3 \<noteq> []"
      and p: "cancelCalls pre0 = []" "sentNonces pre0 = []" "watchCalls pre0 = []"
    for tr3 pre0
  proof -
    from reconcile_replace [OF r c w] obtain v1 dr st where
      pa: "processAll s str i (prepared s d v req) = (None, v1, dr)"
      and t3: "tr3 = CancelCall ?t k # dr @ [WatchCall (normalized d v req) [] st]"
      and n: "length (sentNonces dr) = length (deltaResponses v)"
      and e: "deltaResponses v' = []"
      by (auto simp: prepared_fields normalized_fields)
    show ?thesis
      using pa t3 n e p processAll_effects [OF pa]
      by (intro exI [of _ pre0] exI [of _ v1] exI [of _ dr] exI [of _ st]) simp
  qed
  show ?thesis
    using assms(1,3) lg
    by (auto simp: handleRequest_Some split: if_splits option.splits prod.splits
        intro!: main [of _ "requestLog s d v req", simplified]
                main [of _ "requestLog s d v req @ [RequestCb i (normalized d v req)]", simplified])
qed

lemma handleRequest_cancels:
  assumes "handleRequest s str d i v (Some req) = (Running, v', tr)"
    and "ackOrFirst v (effectiveTypeUrl d req) (ResponseNonce req)"
    and "map_of (deltaCancellations v) (effectiveTypeUrl d req) = Some (Some k)"
  shows "cancelCalls tr = [CancelCall (effectiveTypeUrl d req) k]"
proof -
  have w: "watchCalls tr \<noteq> []"
    using handleRequest_watch [OF assms(1)] assms(2) by auto
  from handleRequest_replace [OF assms(1,3) w] obtain pre dr st where
    "tr = pre @ CancelCall (effectiveTypeUrl d req) k # dr
            @ [WatchCall (normalized d v req) [] st]"
    "cancelCalls pre = []" "list_all isSendEffect dr"
    by blast
  then show ?thesis
    by (simp add: cancelCalls_send)
qed

text \<open>When the handling of a request runs to its end.\<close>

lemma reconcile_running_iff:
  assumes "reconcile s str i v req n = (out, v', tr)"
  shows "out = Running \<longleftrightarrow>
           (ackOrFirst v (TypeUrl req) n
              \<and> (\<exists>k. map_of (deltaCancellations v) (TypeUrl req) = Some (Some k))
            \<longrightarrow> fst (processAll s str i v) = None)"
  using assms
  by (auto simp: reconcile_def ackOrFirst_def Let_def
      split: if_splits option.splits prod.splits)

lemma drainPasses_iff:
  "drainPasses s str d i v req \<longleftrightarrow>
     ((\<exists>k. map_of (deltaCancellations v) (effectiveTypeUrl d req) = Some (Some k))
        \<longrightarrow> fst (processAll s str i (prepared s d v req)) = None)"
  by (auto simp: drainPasses_def split: option.splits)

lemma handleRequest_running_iff:
  assumes "handleRequest s str d i v (Some req) = (out, v', tr)"
  shows "out = Running \<longleftrightarrow>
           \<not> (d = AnyType \<and> TypeUrl req = '''') \<and> requestAccepted s d i v req
           \<and> (ackOrFirst v (effectiveTypeUrl d req) (ResponseNonce req)
                \<longrightarrow> drainPasses s str d i v req)"
proof -
  have rc: "o3 = Running \<longleftrightarrow>
              (ackOrFirst v (effectiveTypeUrl d req) (ResponseNonce req)
                 \<longrightarrow> drainPasses s str d i v req)"
    if "reconcile s str i (prepared s d v req) (normalized d v req) (ResponseNonce req)
          = (o3, v3, tr3)" for o3 v3 tr3
    using reconcile_running_iff [OF that]
    unfolding drainPasses_iff ackOrFirst_def prepared_fields normalized_fields
    by blast
  show ?thesis
    using assms
    by (auto simp: handleRequest_Some requestAccepted_def
        split: if_splits option.splits prod.splits dest: rc)
qed

lemma handleRequest_watch_iff:
  assumes "handleRequest s str d i v (Some req) = (out, v', tr)"
  shows "watchCalls tr \<noteq> [] \<longleftrightarrow>
           \<not> (d = AnyType \<and> TypeUrl req = '''') \<and> requestAccepted s d i v req
           \<and> ackOrFirst v (effectiveTypeUrl d req) (ResponseNonce req)
           \<and> drainPasses s str d i v req"
  using handleRequest_watch [OF assms] handleRequest_running_iff [OF assms]
  by auto







section \<open>The claims\<close>

subsection \<open>C1: a watch for an acknowledgement or a first request only\<close>

text \<open>
  Claim C1, as the code has it. The handling of a request creates a watch, for the
  effective type URL of the request, if and only if the request is not ended before the
  reconciliation (it has a type URL or the stream is not aggregated, and the
  stream-request callback accepts it), its type has no entry in \<^verbatim>\<open>deltaNonces\<close> or
  its response nonce is the nonce recorded for the type, and the drain that follows the
  call of a non-nil cancel handle does not fail. The handling runs to its end under the
  same conditions, the drain counting only where the nonce test holds. A watch is created
  once, with the request as the callback got it, as the last step of a handling that runs
  to its end. When the type has an entry and the nonce differs, \<^verbatim>\<open>CreateDeltaWatch\<close>
  is not called, no cancel handle is called and \<^verbatim>\<open>deltaCancellations\<close> is left as
  it was.
\<close>

theorem watch_iff_ack_or_first:
  assumes "handleRequest s str d i v (Some req) = (out, v', tr)"
  shows "(watchCalls tr \<noteq> [] \<longleftrightarrow>
            \<not> (d = AnyType \<and> TypeUrl req = '''') \<and> requestAccepted s d i v req
            \<and> ackOrFirst v (effectiveTypeUrl d req) (ResponseNonce req)
            \<and> drainPasses s str d i v req)
       \<and> (out = Running \<longleftrightarrow>
            \<not> (d = AnyType \<and> TypeUrl req = '''') \<and> requestAccepted s d i v req
            \<and> (ackOrFirst v (effectiveTypeUrl d req) (ResponseNonce req)
                 \<longrightarrow> drainPasses s str d i v req))
       \<and> (watchCalls tr \<noteq> [] \<longrightarrow>
            out = Running
            \<and> (\<exists>p st. watchCalls tr = [WatchCall (normalized d v req) p st])
            \<and> TypeUrl (normalized d v req) = effectiveTypeUrl d req)
       \<and> (\<not> ackOrFirst v (effectiveTypeUrl d req) (ResponseNonce req)
            \<longrightarrow> watchCalls tr = [] \<and> cancelCalls tr = []
                \<and> deltaCancellations v' = deltaCancellations v)"
proof -
  note w = handleRequest_watch [OF assms]
  have a: "watchCalls tr \<noteq> [] \<longrightarrow>
            out = Running
            \<and> (\<exists>p st. watchCalls tr = [WatchCall (normalized d v req) p st])
            \<and> TypeUrl (normalized d v req) = effectiveTypeUrl d req"
    using w by (auto simp: normalized_fields)
  have b: "\<not> ackOrFirst v (effectiveTypeUrl d req) (ResponseNonce req)
            \<longrightarrow> watchCalls tr = [] \<and> cancelCalls tr = []
                \<and> deltaCancellations v' = deltaCancellations v"
    using w handleRequest_mismatch [OF assms] by auto
  show ?thesis
    using handleRequest_watch_iff [OF assms] handleRequest_running_iff [OF assms] a b
    by (intro conjI)
qed

theorem watch_iff_ack_or_first_witness:
  "\<exists>out v' tr p st out0 v0 tr0.
     handleRequest srv0 str0 ''A'' 1 (afterAck\<lparr>deltaResponses := [Some (mkResp ''A'')]\<rparr>)
         (Some (mkReq ''A'' ''1'')) = (out, v', tr)
     \<and> \<not> (''A'' = AnyType \<and> TypeUrl (mkReq ''A'' ''1'') = '''')
     \<and> requestAccepted srv0 ''A'' 1 (afterAck\<lparr>deltaResponses := [Some (mkResp ''A'')]\<rparr>)
          (mkReq ''A'' ''1'')
     \<and> ackOrFirst (afterAck\<lparr>deltaResponses := [Some (mkResp ''A'')]\<rparr>)
          (effectiveTypeUrl ''A'' (mkReq ''A'' ''1'')) (ResponseNonce (mkReq ''A'' ''1''))
     \<and> drainPasses srv0 str0 ''A'' 1 (afterAck\<lparr>deltaResponses := [Some (mkResp ''A'')]\<rparr>)
          (mkReq ''A'' ''1'')
     \<and> out = Running
     \<and> watchCalls tr
         = [WatchCall (normalized ''A'' (afterAck\<lparr>deltaResponses := [Some (mkResp ''A'')]\<rparr>)
              (mkReq ''A'' ''1'')) p st]
     \<and> handleRequest srv0 str0 ''A'' 1 afterAck (Some (mkReq ''A'' ''0'')) = (out0, v0, tr0)
     \<and> \<not> ackOrFirst afterAck (effectiveTypeUrl ''A'' (mkReq ''A'' ''0''))
           (ResponseNonce (mkReq ''A'' ''0''))
     \<and> watchCalls tr0 = [] \<and> cancelCalls tr0 = []
     \<and> deltaCancellations v0 = deltaCancellations afterAck"
proof -
  let ?v = "afterAck\<lparr>deltaResponses := [Some (mkResp ''A'')]\<rparr>"
  obtain out v' tr where
    h: "handleRequest srv0 str0 ''A'' 1 ?v (Some (mkReq ''A'' ''1'')) = (out, v', tr)"
    by (rule prod_cases3)
  obtain out0 v0 tr0 where
    h0: "handleRequest srv0 str0 ''A'' 1 afterAck (Some (mkReq ''A'' ''0'')) = (out0, v0, tr0)"
    by (rule prod_cases3)
  have t: "\<not> (''A'' = AnyType \<and> TypeUrl (mkReq ''A'' ''1'') = '''')"
    by (simp add: AnyType_def)
  have c: "requestAccepted srv0 ''A'' 1 ?v (mkReq ''A'' ''1'')"
    by (simp add: requestAccepted_def fixture_defs)
  have a: "ackOrFirst ?v (effectiveTypeUrl ''A'' (mkReq ''A'' ''1''))
             (ResponseNonce (mkReq ''A'' ''1''))"
    by (simp add: afterAck_eq ackOrFirst_def effectiveTypeUrl_def mkReq_def)
  have dp: "drainPasses srv0 str0 ''A'' 1 ?v (mkReq ''A'' ''1'')"
    by (simp add: drainPasses_def prepared_def normalized_def effectiveTypeUrl_def
        afterAck_eq fixture_defs model_defs)
  have na: "\<not> ackOrFirst afterAck (effectiveTypeUrl ''A'' (mkReq ''A'' ''0''))
               (ResponseNonce (mkReq ''A'' ''0''))"
    by (simp add: afterAck_eq ackOrFirst_def effectiveTypeUrl_def mkReq_def)
  note th = watch_iff_ack_or_first [OF h]
  have w: "watchCalls tr \<noteq> []"
    using th t c a dp by blast
  have r: "out = Running"
    using th w by blast
  obtain p st where
    wc: "watchCalls tr = [WatchCall (normalized ''A'' ?v (mkReq ''A'' ''1'')) p st]"
    using th w by blast
  note th0 = watch_iff_ack_or_first [OF h0]
  have m: "watchCalls tr0 = []" "cancelCalls tr0 = []"
    "deltaCancellations v0 = deltaCancellations afterAck"
    using th0 na by blast+
  show ?thesis
    by (intro exI conjI) (rule h t c a dp r wc h0 na m)+
qed

text \<open>
  The claim as written fails. A first request for a type that no response has been sent
  for, which the stream-request callback refuses, gets no watch; and an acknowledgement
  with the nonce recorded for its type gets none when the transport fails on a response
  drained after the cancel.
\<close>

theorem ack_or_first_without_watch:
  "map_of (deltaNonces (Init (ResponseTypeURLs (cache srvRequestFails)))) ''A'' = None
   \<and> watchCalls (snd (snd (snd
        (processDelta srvRequestFails str0 [RecvRequest (Some (mkReq ''A'' ''''))] ''A'')))) = []
   \<and> map_of (deltaNonces (afterAck\<lparr>deltaResponses := [Some (mkResp ''A'')]\<rparr>)) ''A''
       = Some (ResponseNonce (mkReq ''A'' ''1''))
   \<and> watchCalls (snd (snd
        (handleRequest srv0 strBroken ''A'' 1
           (afterAck\<lparr>deltaResponses := [Some (mkResp ''A'')]\<rparr>) (Some (mkReq ''A'' ''1'')))))
       = []"
  by (simp add: afterAck_eq fixture_defs model_defs)

subsection \<open>C2: two requests with the same nonce\<close>

text \<open>
  Claim C2, as the code has it. Two consecutive requests for the same type URL with the
  same response nonce, both handled to the end with nothing waiting in the response
  channel (so that no response is processed), are treated alike, since only a response
  changes the nonce of a type: when the type has no nonce entry or the nonce matches,
  each of them creates a watch, two in all, and otherwise none of them does. The number
  of watches created is never one. When the second request creates its watch and the
  first left a non-nil cancel handle, the second calls that handle, and no other.
\<close>

theorem same_nonce_twice:
  assumes "handleRequest s str d i v (Some r1) = (Running, v1, tr1)"
    and "handleRequest s str d i v1 (Some r2) = (Running, v2, tr2)"
    and "TypeUrl r1 = TypeUrl r2"
    and "ResponseNonce r1 = ResponseNonce r2"
    and "deltaResponses v = []"
  shows "length (watchCalls (tr1 @ tr2))
           = (if ackOrFirst v (effectiveTypeUrl d r1) (ResponseNonce r1) then 2 else 0)
       \<and> (ackOrFirst v (effectiveTypeUrl d r1) (ResponseNonce r1) \<longrightarrow>
            (\<forall>k. map_of (deltaCancellations v1) (effectiveTypeUrl d r1) = Some (Some k)
               \<longrightarrow> cancelCalls tr2 = [CancelCall (effectiveTypeUrl d r1) k]))"
proof -
  have t: "effectiveTypeUrl d r2 = effectiveTypeUrl d r1"
    using assms(3) by (simp add: effectiveTypeUrl_def)
  have a: "ackOrFirst v1 (effectiveTypeUrl d r2) (ResponseNonce r2)
             = ackOrFirst v (effectiveTypeUrl d r1) (ResponseNonce r1)"
    using handleRequest_idle [OF assms(1) assms(5)] assms(4) t
    by (simp add: ackOrFirst_def)
  have n: "length (watchCalls (tr1 @ tr2))
           = (if ackOrFirst v (effectiveTypeUrl d r1) (ResponseNonce r1) then 2 else 0)"
    using handleRequest_watch [OF assms(1)] handleRequest_watch [OF assms(2)] a
    by auto
  have c: "cancelCalls tr2 = [CancelCall (effectiveTypeUrl d r1) k]"
    if "ackOrFirst v (effectiveTypeUrl d r1) (ResponseNonce r1)"
      "map_of (deltaCancellations v1) (effectiveTypeUrl d r1) = Some (Some k)" for k
    using handleRequest_cancels [OF assms(2), of k] that a t by simp
  show ?thesis
    using n c by blast
qed

theorem same_nonce_twice_witness:
  "\<exists>v1 tr1 v2 tr2.
     handleRequest srv0 str0 ''A'' 1 (Init [''A'']) (Some (mkReq ''A'' '''')) = (Running, v1, tr1)
     \<and> handleRequest srv0 str0 ''A'' 1 v1 (Some (mkReq ''A'' '''')) = (Running, v2, tr2)
     \<and> deltaResponses (Init [''A'']) = []
     \<and> ackOrFirst (Init [''A'']) (effectiveTypeUrl ''A'' (mkReq ''A'' ''''))
          (ResponseNonce (mkReq ''A'' ''''))
     \<and> map_of (deltaCancellations v1) (effectiveTypeUrl ''A'' (mkReq ''A'' '''')) = Some (Some 0)
     \<and> length (watchCalls (tr1 @ tr2)) = 2
     \<and> cancelCalls tr2 = [CancelCall (effectiveTypeUrl ''A'' (mkReq ''A'' '''')) 0]"
proof -
  obtain o1 v1 tr1 where
    h1: "handleRequest srv0 str0 ''A'' 1 (Init [''A'']) (Some (mkReq ''A'' '''')) = (o1, v1, tr1)"
    by (rule prod_cases3)
  obtain o2 v2 tr2 where
    h2: "handleRequest srv0 str0 ''A'' 1 v1 (Some (mkReq ''A'' '''')) = (o2, v2, tr2)"
    by (rule prod_cases3)
  have r1: "o1 = Running"
    and v1: "v1 = (Init [''A''])\<lparr>deltaCancellations := [(''A'', Some 0)], watchCount := Suc 0\<rparr>"
    using h1 by (simp_all add: fixture_defs model_defs)
  have r2: "o2 = Running"
    using h2 unfolding v1 by (simp add: fixture_defs model_defs)
  have e: "deltaResponses (Init [''A'']) = []" by (simp add: Init_def)
  have a: "ackOrFirst (Init [''A'']) (effectiveTypeUrl ''A'' (mkReq ''A'' ''''))
             (ResponseNonce (mkReq ''A'' ''''))"
    by (simp add: ackOrFirst_def Init_def)
  have c: "map_of (deltaCancellations v1) (effectiveTypeUrl ''A'' (mkReq ''A'' ''''))
             = Some (Some 0)"
    by (simp add: v1 effectiveTypeUrl_def mkReq_def)
  note th = same_nonce_twice [OF h1 [unfolded r1] h2 [unfolded r2] refl refl e]
  have n: "length (watchCalls (tr1 @ tr2)) = 2"
    using th a by simp
  have k: "cancelCalls tr2 = [CancelCall (effectiveTypeUrl ''A'' (mkReq ''A'' '''')) 0]"
    using th a c by blast
  show ?thesis
    by (intro exI conjI) (rule h1 [unfolded r1] h2 [unfolded r2] e a c n k)+
qed

text \<open>
  The claim as written fails: on a fresh stream of type \<open>''A''\<close>, two requests for
  \<open>''A''\<close> with the same (empty) response nonce and no response between them create two
  watches, not one.
\<close>

theorem same_nonce_twice_two_watches:
  "length (watchCalls (snd (snd (snd (processDelta srv0 str0
      [RecvRequest (Some (mkReq ''A'' '''')), RecvRequest (Some (mkReq ''A'' ''''))] ''A''))))) = 2"
  by (simp add: fixture_defs model_defs)

subsection \<open>C3: cancel, drain, then the new watch\<close>




subsection \<open>C4: the stream-open callback fails\<close>

text \<open>
  Claim C4, as the code has it. The teardown is deferred before the stream-open callback
  is called. If that callback returns an error, \<^verbatim>\<open>processDelta\<close> returns the error
  and the teardown runs: no cancel handle is called (none is registered) and the
  stream-closed callback is called once. Whenever \<^verbatim>\<open>processDelta\<close> returns on a
  server with callbacks, once the response channel is made, the stream-closed callback is
  called exactly once, as the last effect, whether stream-open succeeded or not; while the
  processor runs it has not been called.
\<close>

theorem stream_closed_once:
  assumes "callbacks s = Some cb"
    and "0 \<le> (if d = AnyType then muxBufferSize s else xdsBufferSize s)"
    and "processDelta s str evs d = (s', out, v, tr)"
  shows "(\<forall>err. OnDeltaStreamOpen cb (streamCount s + 1) d = Some err \<longrightarrow>
            out = Returned (Some err)
            \<and> tr = [StreamOpenCb (streamCount s + 1) d, StreamClosedCb (streamCount s + 1)])
       \<and> (\<forall>e. out = Returned e \<longrightarrow>
            streamClosedCbs tr = [StreamClosedCb (streamCount s + 1)]
            \<and> last tr = StreamClosedCb (streamCount s + 1))
       \<and> (out = Running \<longrightarrow> streamClosedCbs tr = [])"
  using assms
  by (auto simp: processDelta_def Let_def teardown_def Cancel_def Init_def cancelAll_no_closed
      split: option.splits prod.splits outcome.splits if_splits
      dest!: loop_no_closed)

theorem stream_closed_once_witness:
  "callbacks srvOpenFails = Some cbOpenFails
   \<and> 0 \<le> (if ''A'' = AnyType then muxBufferSize srvOpenFails else xdsBufferSize srvOpenFails)
   \<and> OnDeltaStreamOpen cbOpenFails (streamCount srvOpenFails + 1) ''A'' = Some (Err ''refused'')
   \<and> (\<exists>s' out v tr. processDelta srvOpenFails str0 [] ''A'' = (s', out, v, tr)
        \<and> out = Returned (Some (Err ''refused''))
        \<and> streamClosedCbs tr = [StreamClosedCb (streamCount srvOpenFails + 1)])"
proof -
  have c: "callbacks srvOpenFails = Some cbOpenFails"
    by (simp add: fixture_defs)
  have b: "0 \<le> (if ''A'' = AnyType then muxBufferSize srvOpenFails else xdsBufferSize srvOpenFails)"
    by (simp add: fixture_defs)
  have f: "OnDeltaStreamOpen cbOpenFails (streamCount srvOpenFails + 1) ''A'' = Some (Err ''refused'')"
    by (simp add: fixture_defs)
  obtain s' out v tr where h: "processDelta srvOpenFails str0 [] ''A'' = (s', out, v, tr)"
    by (rule prod_cases4)
  show ?thesis
    using stream_closed_once [OF c b h] c b f h by auto
qed

text \<open>
  The claim as written fails: with a stream-open callback that returns an error, the
  stream-closed callback is called.
\<close>

theorem stream_open_error_closes:
  "snd (snd (snd (processDelta srvOpenFails str0 [] ''A'')))
     = [StreamOpenCb 1 ''A'', StreamClosedCb 1]"
  by (simp add: fixture_defs model_defs)

subsection \<open>C5: a request that carries an error detail\<close>




subsection \<open>C6: the nonces of a stream\<close>

text \<open>
  Claim C6. On every stream the responses handed to the transport are numbered by the
  counter of the stream, from 1. For the first \<open>2 ^ 63 - 1\<close> responses, the range of the
  signed 64-bit counter, the nonce of the \<open>n\<close>-th response is the decimal string of
  \<open>n\<close>, and read as an integer it is greater than the nonce of every response sent
  before it. (Here \<open>n\<close> counts from 0, so the position is \<open>n + 1\<close>.)
\<close>

theorem nonces_count_sends:
  assumes "processDelta s0 str evs d = (s1, out, v, tr)"
  shows "numbered 0 (sentNonces tr)
       \<and> (sentNonces tr \<noteq> [] \<longrightarrow> sentNonces tr ! 0 = ''1'')
       \<and> (\<forall>n. n < length (sentNonces tr) \<and> n + 1 < 2 ^ 63 \<longrightarrow>
             sentNonces tr ! n = decimal (n + 1)
             \<and> nonce_value (sentNonces tr ! n) = int n + 1
             \<and> (\<forall>m < n. nonce_value (sentNonces tr ! m) < nonce_value (sentNonces tr ! n)))"
proof -
  note nb = processDelta_numbered [OF assms]
  have f: "sentNonces tr ! n = decimal (n + 1)"
    if "n < length (sentNonces tr)" "n + 1 < 2 ^ 63" for n
  proof -
    have "sentNonces tr ! n = FormatInt (sint (word_of_nat (Suc n) :: int64))"
      using nb that(1) unfolding numbered_iff by (simp del: of_nat_Suc)
    also have "\<dots> = decimal (n + 1)"
      using sint_counter [of "Suc n"] that(2) by (simp add: FormatInt_def del: of_nat_Suc)
    finally show ?thesis .
  qed
  have g: "nonce_value (sentNonces tr ! n) = int n + 1"
    if "n < length (sentNonces tr)" "n + 1 < 2 ^ 63" for n
    using f [OF that] by (simp add: nonce_value_decimal)
  have h: "nonce_value (sentNonces tr ! m) < nonce_value (sentNonces tr ! n)"
    if "n < length (sentNonces tr)" "n + 1 < 2 ^ 63" "m < n" for n m
  proof -
    have "m < length (sentNonces tr)" "m + 1 < 2 ^ 63" using that by simp_all
    from g [OF this] g [OF that(1,2)] that(3) show ?thesis by simp
  qed
  have one: "decimal (0 + 1) = ''1''"
    by (simp add: decimal.simps digit_chars)
  have "(0::nat) + 1 < 2 ^ 63" by simp
  then have first: "sentNonces tr ! 0 = ''1''" if "sentNonces tr \<noteq> []"
    using f [of 0] that one by simp
  show ?thesis
    using nb first f g h by blast
qed

theorem nonces_count_sends_witness:
  "\<exists>s1 out v tr.
     processDelta srv0 str0 twoResponseSchedule ''A'' = (s1, out, v, tr)
     \<and> (1::nat) < length (sentNonces tr) \<and> (1::nat) + 1 < 2 ^ 63
     \<and> sentNonces tr = [''1'', ''2'']
     \<and> sentNonces tr ! 1 = decimal (1 + 1)
     \<and> nonce_value (sentNonces tr ! 0) < nonce_value (sentNonces tr ! 1)"
proof -
  obtain s1 out v tr where
    h: "processDelta srv0 str0 twoResponseSchedule ''A'' = (s1, out, v, tr)"
    by (rule prod_cases4)
  have "sentNonces (snd (snd (snd (processDelta srv0 str0 twoResponseSchedule ''A''))))
          = [''1'', ''2'']"
    by (simp add: twoResponseSchedule_def ackSchedule_def fixture_defs model_defs FormatInt_def
        decimal.simps digit_chars)
  then have sn: "sentNonces tr = [''1'', ''2'']"
    by (simp add: h)
  have l: "(1::nat) < length (sentNonces tr)" by (simp add: sn)
  have b: "(1::nat) + 1 < 2 ^ 63" by simp
  from nonces_count_sends [OF h] l b have
    d: "sentNonces tr ! 1 = decimal (1 + 1)"
    and m: "\<forall>m<1. nonce_value (sentNonces tr ! m) < nonce_value (sentNonces tr ! 1)"
    by blast+
  from m have lt: "nonce_value (sentNonces tr ! 0) < nonce_value (sentNonces tr ! 1)"
    by simp
  show ?thesis
    by (intro exI conjI) (rule h l b sn d lt)+
qed

subsection \<open>C7: what a successful process leaves\<close>

text \<open>
  Claim C7. After a call of \<^verbatim>\<open>process\<close> that returns nil, in any state a stream
  can be in, with \<open>t\<close> the type URL of the request the response carries:
  \<^verbatim>\<open>deltaNonces[t]\<close> is the nonce just generated, \<^verbatim>\<open>deltaCancellations[t]\<close> is
  nil, the nonce of \<^verbatim>\<open>deltaStreamStates[t]\<close> is \<^verbatim>\<open>deltaNonces[t]\<close>, and the
  nonce map and the stream states agree on every type with an entry in both.
\<close>

theorem process_success_state:
  assumes "reach s str d i v" and "process s str i v resp = (None, v', tr)"
  shows "\<exists>r rq nonce st.
           resp = Some r \<and> GetDeltaRequest r = Some rq
           \<and> nonce = FormatInt (sint (streamNonce v + 1)) \<and> sentNonces tr = [nonce]
           \<and> map_of (deltaNonces v') (TypeUrl rq) = Some nonce
           \<and> map_of (deltaCancellations v') (TypeUrl rq) = Some None
           \<and> map_of (deltaStreamStates v') (TypeUrl rq) = Some st \<and> Nonce st = nonce
           \<and> (\<forall>u n su. map_of (deltaNonces v') u = Some n
                  \<and> map_of (deltaStreamStates v') u = Some su \<longrightarrow> Nonce su = n)"
proof -
  have "noncesAgree v'"
    using noncesAgree_process [OF assms(2) noncesAgree_reach [OF assms(1)]] .
  then have all: "\<forall>u n su. map_of (deltaNonces v') u = Some n
                  \<and> map_of (deltaStreamStates v') u = Some su \<longrightarrow> Nonce su = n"
    by (simp add: noncesAgree_iff)
  from process_None [OF assms(2)] obtain r rq sv vm where
    r: "resp = Some r" "GetDeltaRequest r = Some rq"
    and v': "v' = processed v (TypeUrl rq) sv vm"
    and sn: "sentNonces tr = [FormatInt (sint (streamNonce v + 1))]"
    by blast
  have m: "map_of (deltaNonces v') (TypeUrl rq) = Some (FormatInt (sint (streamNonce v + 1)))"
    "map_of (deltaCancellations v') (TypeUrl rq) = Some None"
    "map_of (deltaStreamStates v') (TypeUrl rq)
       = Some \<lparr>Nonce = FormatInt (sint (streamNonce v + 1)),
               SystemVersion = sv, ResourceVersions = vm\<rparr>"
    by (simp_all add: v' processed_maps)
  show ?thesis
    using r sn m all by (intro exI conjI) (assumption | simp)+
qed

theorem process_success_state_witness:
  "\<exists>v' tr. reach srv0 str0 ''A'' 1 (Init [''A'', ''B''])
     \<and> process srv0 str0 1 (Init [''A'', ''B'']) (Some (mkResp ''A'')) = (None, v', tr)
     \<and> map_of (deltaNonces v') ''A'' = Some ''1''
     \<and> map_of (deltaCancellations v') ''A'' = Some None
     \<and> (\<exists>st. map_of (deltaStreamStates v') ''A'' = Some st \<and> Nonce st = ''1'')"
proof -
  have u: "ResponseTypeURLs (cache srv0) = [''A'', ''B'']"
    by (simp add: fixture_defs)
  have r: "reach srv0 str0 ''A'' 1 (Init [''A'', ''B''])"
    using reach_Init [of srv0 str0 "''A''" 1] by (simp add: u)
  define res where "res = process srv0 str0 1 (Init [''A'', ''B'']) (Some (mkResp ''A''))"
  have "fst res = None"
    by (simp add: res_def fixture_defs model_defs)
  then have p: "process srv0 str0 1 (Init [''A'', ''B'']) (Some (mkResp ''A''))
                  = (None, fst (snd res), snd (snd res))"
    unfolding res_def [symmetric] by (simp add: prod_eq_iff)
  have n: "FormatInt (sint (streamNonce (Init [''A'', ''B'']) + 1)) = ''1''"
    by (simp add: Init_def FormatInt_def decimal.simps digit_chars)
  have t: "TypeUrl rq = ''A''" if "GetDeltaRequest (mkResp ''A'') = Some rq" for rq
    using that by (auto simp: mkResp_def mkReq_def)
  from process_success_state [OF r p] obtain rq st where
    g: "GetDeltaRequest (mkResp ''A'') = Some rq"
    and a: "map_of (deltaNonces (fst (snd res))) (TypeUrl rq)
              = Some (FormatInt (sint (streamNonce (Init [''A'', ''B'']) + 1)))"
    and b: "map_of (deltaCancellations (fst (snd res))) (TypeUrl rq) = Some None"
    and c: "map_of (deltaStreamStates (fst (snd res))) (TypeUrl rq) = Some st"
    and e: "Nonce st = FormatInt (sint (streamNonce (Init [''A'', ''B'']) + 1))"
    by auto
  note a' = a [unfolded t [OF g] n] and b' = b [unfolded t [OF g]]
    and c' = c [unfolded t [OF g]] and e' = e [unfolded n]
  show ?thesis
    by (intro exI conjI) (rule r p a' b' c' e')+
qed

subsection \<open>C8: the node of a stream\<close>

text \<open>
  Claim C8. A request with a node makes it the node the stream remembers; a request
  without one leaves the remembered node as it is, and is given it. The stream-request
  callback, whenever it is called, gets the request with the remembered node in place.
  So after a request that set the node, later events that set none, and then a request
  without node, the callback observes that request with the node of the first.
\<close>

theorem node_rehydrated:
  assumes "handleRequest s str d i v (Some req) = (out, v', tr)"
  shows "node v' = (case Node req of Some n \<Rightarrow> n | None \<Rightarrow> node v)
       \<and> Node (normalized d v req) = Some (node v')
       \<and> requestCbs tr =
           (if callbacks s \<noteq> None \<and> \<not> (d = AnyType \<and> TypeUrl req = '''')
            then [RequestCb i (normalized d v req)] else [])
       \<and> (\<forall>n req0 v0 v1 tr0 evs tr1.
             Node req0 = Some n
             \<and> handleRequest s str d i v0 (Some req0) = (Running, v1, tr0)
             \<and> loop s str d i evs v1 = (Running, v, tr1) \<and> \<not> list_ex setsNode evs
             \<and> Node req = None
             \<longrightarrow> Node (normalized d v req) = Some n)"
proof -
  have a: "node v' = (case Node req of Some n \<Rightarrow> n | None \<Rightarrow> node v)"
    by (rule handleRequest_node [OF assms])
  have b: "Node (normalized d v req) = Some (node v')"
    by (simp add: a normalized_fields)
  have c: "Node (normalized d v req) = Some n"
    if "Node req0 = Some n" "handleRequest s str d i v0 (Some req0) = (Running, v1, tr0)"
      "loop s str d i evs v1 = (Running, v, tr1)" "\<not> list_ex setsNode evs" "Node req = None"
    for n v0 v1 tr0 req0 evs tr1
    using handleRequest_node [OF that(2)] loop_node [OF that(3,4)] that(1,5)
    by (simp add: normalized_fields)
  show ?thesis
    using a b c handleRequest_requestCbs [OF assms] by blast
qed

theorem node_rehydrated_witness:
  "\<exists>v1 tr0 v tr1 out v' tr.
     Node firstReq = Some node0
     \<and> handleRequest srv0 str0 ''A'' 1 (Init [''A'']) (Some firstReq) = (Running, v1, tr0)
     \<and> loop srv0 str0 ''A'' 1 [Produce (Some (mkResp ''A'')), RecvResponse] v1 = (Running, v, tr1)
     \<and> \<not> list_ex setsNode [Produce (Some (mkResp ''A'')), RecvResponse]
     \<and> Node (mkReq ''A'' ''1'') = None
     \<and> handleRequest srv0 str0 ''A'' 1 v (Some (mkReq ''A'' ''1'')) = (out, v', tr)
     \<and> Node (normalized ''A'' v (mkReq ''A'' ''1'')) = Some node0
     \<and> requestCbs tr = [RequestCb 1 (normalized ''A'' v (mkReq ''A'' ''1''))]"
proof -
  let ?evs = "[Produce (Some (mkResp ''A'')), RecvResponse]"
  define r0 where "r0 = handleRequest srv0 str0 ''A'' 1 (Init [''A'']) (Some firstReq)"
  define v1 where "v1 = fst (snd r0)"
  define r1 where "r1 = loop srv0 str0 ''A'' 1 ?evs v1"
  define v where "v = fst (snd r1)"
  have n0: "Node firstReq = Some node0" by (simp add: firstReq_def)
  have "fst r0 = Running"
    by (simp add: r0_def firstReq_def fixture_defs model_defs)
  then have h0: "handleRequest srv0 str0 ''A'' 1 (Init [''A'']) (Some firstReq)
                   = (Running, v1, snd (snd r0))"
    unfolding v1_def r0_def [symmetric] by (simp add: prod_eq_iff)
  have "fst r1 = Running"
    by (simp add: r1_def v1_def r0_def firstReq_def fixture_defs model_defs)
  then have l: "loop srv0 str0 ''A'' 1 ?evs v1 = (Running, v, snd (snd r1))"
    unfolding v_def r1_def [symmetric] by (simp add: prod_eq_iff)
  have q: "\<not> list_ex setsNode ?evs" by simp
  have n: "Node (mkReq ''A'' ''1'') = None" by (simp add: mkReq_def)
  have c: "callbacks srv0 \<noteq> None" "''A'' \<noteq> AnyType"
    by (simp_all add: fixture_defs AnyType_def)
  obtain out v' tr where
    h: "handleRequest srv0 str0 ''A'' 1 v (Some (mkReq ''A'' ''1'')) = (out, v', tr)"
    by (rule prod_cases3)
  have k: "Node (normalized ''A'' v (mkReq ''A'' ''1'')) = Some node0"
    using node_rehydrated [OF h] n0 h0 l q n by blast
  have cbs: "requestCbs tr = [RequestCb 1 (normalized ''A'' v (mkReq ''A'' ''1''))]"
    using node_rehydrated [OF h] c by simp
  show ?thesis
    by (intro exI conjI) (rule n0 h0 l q n h k cbs)+
qed

subsection \<open>C9: a request without type URL\<close>

text \<open>
  Claim C9. On an aggregated stream (default type URL \<^verbatim>\<open>AnyType\<close>) a request with an
  empty type URL makes the loop return the INVALID_ARGUMENT status, with no call of the
  stream-request callback, of a cancel handle, of the transport or of
  \<^verbatim>\<open>CreateDeltaWatch\<close>. With a concrete default type URL such a request is given the
  default as its type URL and its handling proceeds: the stream-request callback, when
  there is one, is called with the request under the default type URL; the handling runs
  to its end, and the loop goes on with the events that follow, whenever the callback
  accepts and the drain does not fail; and a watch is created, with the request under the
  default type URL, exactly when moreover the default type has no nonce entry or the nonce
  matches. The outcome is that of the same request sent with the default type URL.
\<close>

theorem empty_type_url:
  assumes "TypeUrl req = ''''"
    and "handleRequest s str d i v (Some req) = (out, v', tr)"
  shows "(d = AnyType \<longrightarrow>
            out = Returned (Some (StatusErr InvalidArgument ''type URL is required for ADS''))
            \<and> requestCbs tr = [] \<and> watchCalls tr = [] \<and> cancelCalls tr = []
            \<and> sentNonces tr = []
            \<and> loop s str d i (RecvRequest (Some req) # evs) v = (out, v', tr))
       \<and> (d \<noteq> AnyType \<longrightarrow>
            TypeUrl (normalized d v req) = d
            \<and> requestCbs tr
                = (if callbacks s = None then [] else [RequestCb i (normalized d v req)])
            \<and> (out = Running \<longleftrightarrow>
                 requestAccepted s d i v req
                 \<and> (ackOrFirst v d (ResponseNonce req) \<longrightarrow> drainPasses s str d i v req))
            \<and> (watchCalls tr \<noteq> [] \<longleftrightarrow>
                 requestAccepted s d i v req \<and> ackOrFirst v d (ResponseNonce req)
                 \<and> drainPasses s str d i v req)
            \<and> (watchCalls tr \<noteq> [] \<longrightarrow>
                 (\<exists>p st. watchCalls tr = [WatchCall (normalized d v req) p st]))
            \<and> (out = Running \<longrightarrow>
                 loop s str d i (RecvRequest (Some req) # evs) v
                   = (case loop s str d i evs v' of (o2, v2, tr2) \<Rightarrow> (o2, v2, tr @ tr2)))
            \<and> handleRequest s str d i v (Some (req\<lparr>TypeUrl := d\<rparr>)) = (out, v', tr))"
proof (intro conjI impI)
  assume a: "d = AnyType"
  have lg: "requestCbs (logErrorDetail s req) = []" "watchCalls (logErrorDetail s req) = []"
    "cancelCalls (logErrorDetail s req) = []" "sentNonces (logErrorDetail s req) = []"
    by (simp_all add: requestCbs_logs watchCalls_logs cancelCalls_logs sentNonces_logs
        logErrorDetail_logs)
  from assms a have
    o: "out = Returned (Some (StatusErr InvalidArgument ''type URL is required for ADS''))"
    and t: "tr = logErrorDetail s req"
    by (simp_all add: handleRequest_Some)
  show "out = Returned (Some (StatusErr InvalidArgument ''type URL is required for ADS''))"
    by (rule o)
  show "requestCbs tr = []" "watchCalls tr = []" "cancelCalls tr = []" "sentNonces tr = []"
    by (simp_all add: t lg)
  show "loop s str d i (RecvRequest (Some req) # evs) v = (out, v', tr)"
    using assms(2) o by simp
next
  assume n: "d \<noteq> AnyType"
  have e: "effectiveTypeUrl d req = d"
    using assms(1) by (simp add: effectiveTypeUrl_def)
  have c: "\<not> (d = AnyType \<and> TypeUrl req = '''')"
    using n by simp
  show "TypeUrl (normalized d v req) = d"
    by (simp add: normalized_fields e)
  show "requestCbs tr = (if callbacks s = None then [] else [RequestCb i (normalized d v req)])"
    using handleRequest_requestCbs [OF assms(2)] c by auto
  show "out = Running \<longleftrightarrow>
          requestAccepted s d i v req
          \<and> (ackOrFirst v d (ResponseNonce req) \<longrightarrow> drainPasses s str d i v req)"
    using handleRequest_running_iff [OF assms(2)] c by (simp add: e)
  show "watchCalls tr \<noteq> [] \<longleftrightarrow>
          requestAccepted s d i v req \<and> ackOrFirst v d (ResponseNonce req)
          \<and> drainPasses s str d i v req"
    using handleRequest_watch_iff [OF assms(2)] c by (simp add: e)
  show "\<exists>p st. watchCalls tr = [WatchCall (normalized d v req) p st]"
    if "watchCalls tr \<noteq> []"
    using handleRequest_watch [OF assms(2)] that by auto
  show "loop s str d i (RecvRequest (Some req) # evs) v
          = (case loop s str d i evs v' of (o2, v2, tr2) \<Rightarrow> (o2, v2, tr @ tr2))"
    if "out = Running"
    using assms(2) that by simp
  show "handleRequest s str d i v (Some (req\<lparr>TypeUrl := d\<rparr>)) = (out, v', tr)"
    using handleRequest_fill [OF assms(1) n, of s str i v] assms(2) by simp
qed

theorem empty_type_url_witness:
  "\<exists>out v' tr out2 v2 tr2 p st.
     TypeUrl (mkReq '''' '''') = ''''
     \<and> handleRequest srv0 str0 AnyType 1 (Init [''A'']) (Some (mkReq '''' '''')) = (out, v', tr)
     \<and> out = Returned (Some (StatusErr InvalidArgument ''type URL is required for ADS''))
     \<and> requestCbs tr = [] \<and> watchCalls tr = []
     \<and> ''A'' \<noteq> AnyType
     \<and> handleRequest srv0 str0 ''A'' 1 (Init [''A'']) (Some (mkReq '''' '''')) = (out2, v2, tr2)
     \<and> requestAccepted srv0 ''A'' 1 (Init [''A'']) (mkReq '''' '''')
     \<and> ackOrFirst (Init [''A'']) ''A'' (ResponseNonce (mkReq '''' ''''))
     \<and> drainPasses srv0 str0 ''A'' 1 (Init [''A'']) (mkReq '''' '''')
     \<and> out2 = Running
     \<and> TypeUrl (normalized ''A'' (Init [''A'']) (mkReq '''' '''')) = ''A''
     \<and> requestCbs tr2 = [RequestCb 1 (normalized ''A'' (Init [''A'']) (mkReq '''' ''''))]
     \<and> watchCalls tr2 = [WatchCall (normalized ''A'' (Init [''A'']) (mkReq '''' '''')) p st]"
proof -
  have t: "TypeUrl (mkReq '''' '''') = ''''" by (simp add: mkReq_def)
  have a: "''A'' \<noteq> AnyType" by (simp add: AnyType_def)
  obtain out v' tr where
    h: "handleRequest srv0 str0 AnyType 1 (Init [''A'']) (Some (mkReq '''' '''')) = (out, v', tr)"
    by (rule prod_cases3)
  obtain out2 v2 tr2 where
    h2: "handleRequest srv0 str0 ''A'' 1 (Init [''A'']) (Some (mkReq '''' '''')) = (out2, v2, tr2)"
    by (rule prod_cases3)
  note th = empty_type_url [OF t h, of "[]"]
  have o: "out = Returned (Some (StatusErr InvalidArgument ''type URL is required for ADS''))"
    and r: "requestCbs tr = []" and w: "watchCalls tr = []"
    using th by blast+
  have c: "requestAccepted srv0 ''A'' 1 (Init [''A'']) (mkReq '''' '''')"
    by (simp add: requestAccepted_def fixture_defs)
  have k: "ackOrFirst (Init [''A'']) ''A'' (ResponseNonce (mkReq '''' ''''))"
    by (simp add: ackOrFirst_def Init_def)
  have dp: "drainPasses srv0 str0 ''A'' 1 (Init [''A'']) (mkReq '''' '''')"
    by (simp add: drainPasses_def Init_def)
  have cb: "callbacks srv0 \<noteq> None" by (simp add: fixture_defs)
  note th2 = empty_type_url [OF t h2, of "[]"]
  have o2: "out2 = Running"
    using th2 a c k dp by blast
  have n2: "TypeUrl (normalized ''A'' (Init [''A'']) (mkReq '''' '''')) = ''A''"
    using th2 a by blast
  have r2: "requestCbs tr2 = [RequestCb 1 (normalized ''A'' (Init [''A'']) (mkReq '''' ''''))]"
    using th2 a cb by simp
  have "watchCalls tr2 \<noteq> []"
    using th2 a c k dp by blast
  then obtain p st where
    w2: "watchCalls tr2 = [WatchCall (normalized ''A'' (Init [''A'']) (mkReq '''' '''')) p st]"
    using th2 a by blast
  show ?thesis
    by (intro exI conjI) (rule t h o r w a h2 c k dp o2 n2 r2 w2)+
qed

subsection \<open>C10: a version error after the send\<close>

text \<open>
  Claim C10, as the code has it. When \<^verbatim>\<open>GetSystemVersion\<close> or
  \<^verbatim>\<open>GetDeltaVersionMap\<close> fails after \<^verbatim>\<open>send\<close> succeeded, the loop returns that
  error, and the change of state is not atomic: the response has been sent with a fresh
  nonce, \<^verbatim>\<open>deltaNonces[typeURL]\<close> is that nonce and
  \<^verbatim>\<open>deltaCancellations[typeURL]\<close> is nil, while \<^verbatim>\<open>deltaStreamStates[typeURL]\<close>
  is overwritten with the zero \<^verbatim>\<open>StreamState\<close> (the assignment of line 225 stores
  what \<^verbatim>\<open>update\<close> returns with its error), whose empty nonce differs from the
  nonce recorded.
\<close>

theorem version_error_after_send:
  assumes "deltaResponses v = Some r # rest"
    and "send s str i (v\<lparr>deltaResponses := rest\<rparr>) (Some r) = (Inr nonce, v1, tr)"
    and "GetDeltaRequest r = Some rq"
    and "GetSystemVersion r = Inl err
         \<or> (\<exists>sv. GetSystemVersion r = Inr sv) \<and> GetDeltaVersionMap r = Inl err"
  shows "\<exists>v'. loop s str d i (RecvResponse # evs) v = (Returned (Some err), v', tr)
           \<and> nonce = FormatInt (sint (streamNonce v + 1)) \<and> sentNonces tr = [nonce]
           \<and> map_of (deltaNonces v') (TypeUrl rq) = Some nonce
           \<and> map_of (deltaCancellations v') (TypeUrl rq) = Some None
           \<and> map_of (deltaStreamStates v') (TypeUrl rq) = Some zeroStreamState
           \<and> Nonce zeroStreamState \<noteq> nonce"
proof -
  from send_Inr [OF assms(2)] have
    n: "nonce = FormatInt (sint (streamNonce v + 1))" and sn: "sentNonces tr = [nonce]"
    by auto
  have z: "Nonce zeroStreamState \<noteq> nonce"
    using FormatInt_nonempty [of "sint (streamNonce v + 1)"] n
    by (simp add: zeroStreamState_def)
  have u: "update r nonce = (zeroStreamState, Some err)"
    using assms(4) by (auto simp: update_def)
  have p: "process s str i (v\<lparr>deltaResponses := rest\<rparr>) (Some r)
             = (Some err,
                v1\<lparr>deltaNonces := AList.update (TypeUrl rq) nonce (deltaNonces v1),
                   deltaCancellations := AList.update (TypeUrl rq) None (deltaCancellations v1),
                   deltaStreamStates :=
                     AList.update (TypeUrl rq) zeroStreamState (deltaStreamStates v1)\<rparr>,
                tr)"
    using assms(2,3) u by (simp add: process_def Let_def)
  show ?thesis
    using assms(1) p n sn z by (simp add: update_conv')
qed

theorem version_error_after_send_witness:
  "\<exists>v1 tr v'.
     deltaResponses (afterAck\<lparr>deltaResponses := [Some (mkRespNoVersion ''A'')]\<rparr>)
       = Some (mkRespNoVersion ''A'') # []
     \<and> send srv0 str0 1 afterAck (Some (mkRespNoVersion ''A'')) = (Inr ''2'', v1, tr)
     \<and> GetDeltaRequest (mkRespNoVersion ''A'') = Some (mkReq ''A'' '''')
     \<and> GetSystemVersion (mkRespNoVersion ''A'') = Inl (Err ''no version'')
     \<and> loop srv0 str0 ''A'' 1 [RecvResponse]
          (afterAck\<lparr>deltaResponses := [Some (mkRespNoVersion ''A'')]\<rparr>)
         = (Returned (Some (Err ''no version'')), v', tr)
     \<and> map_of (deltaNonces v') ''A'' = Some ''2''
     \<and> map_of (deltaStreamStates v') ''A'' = Some zeroStreamState"
proof -
  let ?v = "afterAck\<lparr>deltaResponses := [Some (mkRespNoVersion ''A'')]\<rparr>"
  have q: "deltaResponses ?v = Some (mkRespNoVersion ''A'') # []" by simp
  have e: "?v\<lparr>deltaResponses := []\<rparr> = afterAck"
    by (simp add: afterAck_eq)
  define res where "res = send srv0 str0 1 afterAck (Some (mkRespNoVersion ''A''))"
  have "fst res = Inr ''2''"
    by (simp add: res_def afterAck_eq fixture_defs model_defs FormatInt_def decimal.simps
        digit_chars)
  then have sd: "send srv0 str0 1 afterAck (Some (mkRespNoVersion ''A''))
                   = (Inr ''2'', fst (snd res), snd (snd res))"
    unfolding res_def [symmetric] by (simp add: prod_eq_iff)
  have g: "GetDeltaRequest (mkRespNoVersion ''A'') = Some (mkReq ''A'' '''')"
    by (simp add: mkRespNoVersion_def mkResp_def)
  have f: "GetSystemVersion (mkRespNoVersion ''A'') = Inl (Err ''no version'')"
    by (simp add: mkRespNoVersion_def)
  have t: "TypeUrl (mkReq ''A'' '''') = ''A''" by (simp add: mkReq_def)
  have sd': "send srv0 str0 1 (?v\<lparr>deltaResponses := []\<rparr>) (Some (mkRespNoVersion ''A''))
               = (Inr ''2'', fst (snd res), snd (snd res))"
    unfolding e by (rule sd)
  from version_error_after_send [OF q sd' g disjI1 [OF f], of "''A''" "[]"]
  obtain v' where
    l: "loop srv0 str0 ''A'' 1 [RecvResponse] ?v
          = (Returned (Some (Err ''no version'')), v', snd (snd res))"
    and a: "map_of (deltaNonces v') ''A'' = Some ''2''"
    and b: "map_of (deltaStreamStates v') ''A'' = Some zeroStreamState"
    unfolding t by (elim exE conjE) (rule that)
  show ?thesis
    by (intro exI conjI) (rule q sd g f l a b)+
qed

text \<open>
  The claim as written fails: the stream state of the type does not keep its previous
  value. On the stream that has acknowledged its first response, the state of type
  \<open>''A''\<close> holds the nonce, system version and resource versions of that response;
  after the second response fails on its system version, it is the zero state.
\<close>

theorem version_error_overwrites_state:
  "map_of (deltaStreamStates afterAck) ''A''
     = Some \<lparr>Nonce = ''1'', SystemVersion = ''v1'', ResourceVersions = [(''c1'', ''a'')]\<rparr>
   \<and> map_of (deltaStreamStates afterVersionError) ''A''
     = Some \<lparr>Nonce = '''', SystemVersion = '''', ResourceVersions = []\<rparr>
   \<and> map_of (deltaNonces afterVersionError) ''A'' = Some ''2''"
  by (simp add: afterAck_eq afterVersionError_eq zeroStreamState_def)

end
